theory Spec2Isabelle
  imports Main "HOL-Library.AList"
begin

section \<open>Data model\<close>

text \<open>
  Instants are JavaScript epoch milliseconds (\<open>Date.getTime()\<close>), modelled as \<open>int\<close>.
  A field that the source may leave \<open>null\<close> is an \<open>option\<close>.
  The record \<open>event\<close> is the object built by \<open>parseVEvent\<close>; \<open>endd\<close> is its field
  \<open>end\<close>. The field \<open>rrule\<close> says whether an RRULE value is present, and \<open>component\<close>
  stands for the recurrence iterator of the preserved component: \<open>component ev n\<close> is the
  instant returned by the \<open>n\<close>-th call of \<open>iterator.next()\<close>, \<open>None\<close> once the iterator
  is exhausted. \<open>exdate\<close> is the list of EXDATE properties, each with its list of values.
\<close>

datatype datetype = DateOnly | DateTime

record event =
  uid :: "string option"
  summary :: "string option"
  location :: "string option"
  organizer :: "string option"
  start :: "int option"
  endd :: "int option"
  recurrenceId :: "int option"
  rrule :: bool
  exdate :: "int list list"
  status :: "string option"
  datetype :: datetype
  component :: "nat \<Rightarrow> int option"

text \<open>An occurrence as pushed onto \<open>occs\<close>: \<open>{uid, title, location, organizer, startMs, endMs, status}\<close>.\<close>

record occ =
  occ_uid :: "string option"
  title :: string
  occ_location :: "string option"
  occ_organizer :: "string option"
  startMs :: int
  endMs :: int
  occ_status :: "string option"

text \<open>
  The object built by \<open>toDtoWithTz\<close>. The source renders \<open>start\<close> and \<open>end\<close> as zone-local
  strings with a numeric offset (\<open>isoWithTimeZone\<close>), which keeps whole seconds only; the
  model keeps the instant truncated to whole seconds instead of the string.
\<close>

record dto =
  dto_uid :: "string option"
  dto_title :: string
  dto_location :: "string option"
  dto_organizer :: "string option"
  dto_start :: int
  dto_end :: int

definition wholeSeconds :: "int \<Rightarrow> int" where
  "wholeSeconds ms = (ms div 1000) * 1000"

definition toDtoWithTz :: "occ \<Rightarrow> dto" where
  "toDtoWithTz x =
     \<lparr> dto_uid = occ_uid x, dto_title = title x, dto_location = occ_location x,
       dto_organizer = occ_organizer x,
       dto_start = wholeSeconds (startMs x), dto_end = wholeSeconds (endMs x) \<rparr>"

section \<open>TimelineAnalyzer: computeNextTriple and computeMetrics\<close>

text \<open>\<open>Array.prototype.findIndex\<close>; \<open>None\<close> stands for the result \<open>-1\<close>.\<close>

fun findIndex :: "('a \<Rightarrow> bool) \<Rightarrow> 'a list \<Rightarrow> nat option" where
  "findIndex P [] = None"
| "findIndex P (x # xs) =
     (if P x then Some 0 else map_option Suc (findIndex P xs))"

text \<open>The membership test \<open>nowMs >= o.startMs && nowMs < o.endMs\<close> used by both functions.\<close>

definition containsNow :: "int \<Rightarrow> occ \<Rightarrow> bool" where
  "containsNow nowMs x \<longleftrightarrow> nowMs \<ge> startMs x \<and> nowMs < endMs x"

text \<open>The result of \<open>computeNextTriple\<close>; \<open>nextEv\<close> is its field \<open>next\<close>.\<close>

record triple =
  nextEv :: "dto option"
  nextOverlapping :: "dto option"
  nextNonOverlapping :: "dto option"

text \<open>The three scanning loops of \<open>computeNextTriple\<close>, each over \<open>occs[nextIdx + 1 ..]\<close>.\<close>

fun overlapScan :: "occ \<Rightarrow> occ list \<Rightarrow> occ option" where
  "overlapScan nxt [] = None"
| "overlapScan nxt (x # xs) =
     (if startMs x \<ge> endMs nxt then None
      else if endMs x > startMs nxt then Some x
      else overlapScan nxt xs)"

fun clusterScan :: "int \<Rightarrow> occ list \<Rightarrow> int" where
  "clusterScan clusterEnd [] = clusterEnd"
| "clusterScan clusterEnd (x # xs) =
     (if startMs x \<ge> clusterEnd then clusterEnd
      else clusterScan (if endMs x > clusterEnd then endMs x else clusterEnd) xs)"

definition searchFromMs :: "occ list \<Rightarrow> int \<Rightarrow> int" where
  "searchFromMs occs nowMs =
     (case find (containsNow nowMs) occs of Some cur \<Rightarrow> endMs cur | None \<Rightarrow> nowMs)"

definition computeNextTriple :: "occ list \<Rightarrow> int \<Rightarrow> triple" where
  "computeNextTriple occs nowMs =
     (case findIndex (\<lambda>x. startMs x \<ge> searchFromMs occs nowMs) occs of
        None \<Rightarrow> \<lparr> nextEv = None, nextOverlapping = None, nextNonOverlapping = None \<rparr>
      | Some nextIdx \<Rightarrow>
          (let nxt = occs ! nextIdx;
               rest = drop (nextIdx + 1) occs;
               clusterEnd = clusterScan (endMs nxt) rest
           in \<lparr> nextEv = Some (toDtoWithTz nxt),
                nextOverlapping = map_option toDtoWithTz (overlapScan nxt rest),
                nextNonOverlapping =
                  map_option toDtoWithTz (find (\<lambda>x. startMs x \<ge> clusterEnd) rest) \<rparr>))"

record metrics =
  minutesUntilNext :: "int option"
  isOverlappingNow :: bool
  current :: "dto option"

text \<open>
  \<open>Math.max(0, Math.round((Date.parse(nextDto.start) - nowMs) / 60_000))\<close>: \<open>Math.round\<close>
  rounds halves upwards. The field \<open>now\<close> of the source, a rendering of \<open>nowMs\<close>, is left out.
\<close>

definition computeMetrics :: "occ list \<Rightarrow> int \<Rightarrow> dto option \<Rightarrow> metrics" where
  "computeMetrics occs nowMs nextDto =
     \<lparr> minutesUntilNext =
         (case nextDto of None \<Rightarrow> None
          | Some d \<Rightarrow> Some (max 0 ((dto_start d - nowMs + 30000) div 60000))),
       isOverlappingNow = list_ex (containsNow nowMs) occs,
       current = map_option toDtoWithTz (find (containsNow nowMs) occs) \<rparr>"

section \<open>OccurrenceExpander: expandOccurrencesInWindow\<close>

text \<open>
  JavaScript truthiness of a string-or-null value (\<open>null\<close> and the empty string are falsy),
  the operator \<open>a || b\<close> and the operator \<open>a ?? b\<close> on such values.
\<close>

definition truthy :: "string option \<Rightarrow> bool" where
  "truthy v \<longleftrightarrow> v \<noteq> None \<and> v \<noteq> Some []"

definition jsOr :: "string option \<Rightarrow> string option \<Rightarrow> string option" where
  "jsOr a b = (if truthy a then a else b)"

definition jsCoalesce :: "'a option \<Rightarrow> 'a option \<Rightarrow> 'a option" where
  "jsCoalesce a b = (case a of Some v \<Rightarrow> Some v | None \<Rightarrow> b)"

definition startsWith :: "string \<Rightarrow> string \<Rightarrow> bool" where
  "startsWith s p \<longleftrightarrow> take (length p) s = p"

text \<open>\<open>isExcluded(date, exdates)\<close>: some value of some EXDATE property is the same instant.\<close>

definition isExcluded :: "int \<Rightarrow> int list list \<Rightarrow> bool" where
  "isExcluded t exdates = list_ex (\<lambda>vals. list_ex (\<lambda>v. v = t) vals) exdates"

text \<open>
  The closures of \<open>expandOccurrencesInWindow\<close>. The configuration constant
  \<open>DEFAULT_DURATION_MIN\<close> is the parameter \<open>defaultMin\<close>; the master event \<open>ev\<close>, captured by
  the closures, is a parameter too.
\<close>

definition calcDurationMsFromEvent :: "int \<Rightarrow> event \<Rightarrow> int" where
  "calcDurationMsFromEvent defaultMin e =
     (case start e of
        None \<Rightarrow> defaultMin * 60000
      | Some s \<Rightarrow>
          (case endd e of
             None \<Rightarrow> defaultMin * 60000
           | Some en \<Rightarrow>
               (let dur = en - s
                in if dur > 0 \<and> dur < 7 * 24 * 60 * 60 * 1000 then dur
                   else defaultMin * 60000)))"

definition calcEndMs :: "int \<Rightarrow> event \<Rightarrow> int \<Rightarrow> event option \<Rightarrow> int" where
  "calcEndMs defaultMin ev occStart overrideEv =
     (case overrideEv of
        None \<Rightarrow> occStart + calcDurationMsFromEvent defaultMin ev
      | Some ov \<Rightarrow>
          (case endd ov of
             None \<Rightarrow> occStart + calcDurationMsFromEvent defaultMin ov
           | Some en \<Rightarrow>
               if en > occStart then en
               else occStart + calcDurationMsFromEvent defaultMin ov))"

definition evUid :: "event \<Rightarrow> string" where
  "evUid ev = (case uid ev of Some u \<Rightarrow> u | None \<Rightarrow> [])"

definition baseTitle :: "event \<Rightarrow> string" where
  "baseTitle ev = (case jsOr (summary ev) (Some ''(No title)'') of Some t \<Rightarrow> t | None \<Rightarrow> [])"

definition baseLocation :: "event \<Rightarrow> string option" where
  "baseLocation ev = jsOr (location ev) None"

definition mkOcc :: "int \<Rightarrow> event \<Rightarrow> int \<Rightarrow> event option \<Rightarrow> occ" where
  "mkOcc defaultMin ev startDate overrideEv =
     \<lparr> occ_uid = Some (evUid ev),
       title =
         (case jsOr (jsCoalesce (Option.bind overrideEv summary) (Some (baseTitle ev)))
                    (Some ''(No title)'') of
            Some t \<Rightarrow> t | None \<Rightarrow> []),
       occ_location = jsCoalesce (Option.bind overrideEv location) (baseLocation ev),
       occ_organizer = jsCoalesce (Option.bind overrideEv organizer) (organizer ev),
       startMs = startDate,
       endMs = calcEndMs defaultMin ev startDate overrideEv,
       occ_status = jsCoalesce (Option.bind overrideEv status) (status ev) \<rparr>"

text \<open>\<open>occ.status === "CANCELLED" || occ.title.startsWith("Canceled:")\<close>.\<close>

definition isCancelled :: "occ \<Rightarrow> bool" where
  "isCancelled x \<longleftrightarrow> occ_status x = Some ''CANCELLED'' \<or> startsWith (title x) ''Canceled:''"

text \<open>The branch for an event without RRULE.\<close>

definition nonRecurring :: "int \<Rightarrow> event \<Rightarrow> int \<Rightarrow> int \<Rightarrow> int \<Rightarrow> occ list" where
  "nonRecurring defaultMin ev evStart windowStartMs windowEndMs =
     (let endMs0 = (case endd ev of Some en \<Rightarrow> en | None \<Rightarrow> evStart + defaultMin * 60000);
          overlapsWindow = (evStart < windowEndMs \<and> endMs0 > windowStartMs)
      in if overlapsWindow
         then (let x = mkOcc defaultMin ev evStart None
               in if isCancelled x then [] else [x])
         else [])"

text \<open>
  The \<open>while ((next = iterator.next()))\<close> loop. Its state is the pair of the array
  \<open>occs\<close> (the field \<open>loop_occs\<close>) and the set \<open>usedOverrides\<close>. One pass of the body
  either leaves the loop (\<open>break\<close>) or goes on with a new state (\<open>continue\<close>, or the end
  of the body). The override map of one uid is a JavaScript \<open>Map\<close>, modelled as an
  association list in insertion order.
\<close>

record loopState =
  loop_occs :: "occ list"
  usedOverrides :: "int set"

datatype 'a outcome = Break | Continue 'a

text \<open>\<open>uidOverrides?.get(occMs) || null\<close>.\<close>

definition overrideAt :: "(int \<times> event) list option \<Rightarrow> int \<Rightarrow> event option" where
  "overrideAt uidOverrides occMs =
     (case uidOverrides of None \<Rightarrow> None | Some m \<Rightarrow> map_of m occMs)"

text \<open>The part of the body after the window-end test and the smart skip.\<close>

definition processCandidate ::
  "int \<Rightarrow> event \<Rightarrow> int \<Rightarrow> int \<Rightarrow> (int \<times> event) list option \<Rightarrow> int \<Rightarrow> loopState \<Rightarrow> loopState" where
  "processCandidate defaultMin ev windowStartMs windowEndMs uidOverrides occMs st =
     (if isExcluded occMs (exdate ev) then st
      else
        (let override = overrideAt uidOverrides occMs;
             st1 = (if override \<noteq> None
                    then st\<lparr> usedOverrides := insert occMs (usedOverrides st) \<rparr> else st)
         in if Option.bind override status = Some ''CANCELLED'' then st1
            else
              (let startDate = (case Option.bind override start of Some s \<Rightarrow> s | None \<Rightarrow> occMs);
                   endMs1 = calcEndMs defaultMin ev startDate override;
                   overlapsWindow = (startDate < windowEndMs \<and> endMs1 > windowStartMs)
               in if overlapsWindow
                  then (let x = mkOcc defaultMin ev startDate override
                        in if isCancelled x then st1 else st1\<lparr> loop_occs := loop_occs st1 @ [x] \<rparr>)
                  else st1)))"

definition loopBody ::
  "int \<Rightarrow> event \<Rightarrow> int \<Rightarrow> int \<Rightarrow> (int \<times> event) list option \<Rightarrow> int \<Rightarrow> loopState
     \<Rightarrow> loopState outcome" where
  "loopBody defaultMin ev windowStartMs windowEndMs uidOverrides occMs st =
     (if occMs \<ge> windowEndMs then Break
      else if occMs + 24 * 60 * 60 * 1000 < windowStartMs then Continue st
      else Continue (processCandidate defaultMin ev windowStartMs windowEndMs uidOverrides occMs st))"

text \<open>
  The loop itself, over the instants \<open>it 0, it 1, \<dots>\<close> that the iterator returns. The
  iterator is foreign code and may go on for ever, so the loop is a partial function:
  \<open>None\<close> means that it does not return.
\<close>

partial_function (option) iterLoop ::
  "(int \<Rightarrow> 's \<Rightarrow> 's outcome) \<Rightarrow> (nat \<Rightarrow> int option) \<Rightarrow> nat \<Rightarrow> 's \<Rightarrow> 's option" where
  "iterLoop body it n st =
     (case it n of
        None \<Rightarrow> Some st
      | Some occMs \<Rightarrow>
          (case body occMs st of
             Break \<Rightarrow> Some st
           | Continue st' \<Rightarrow> iterLoop body it (Suc n) st'))"

text \<open>The pass over the overrides that the loop did not use.\<close>

definition standaloneOcc ::
  "int \<Rightarrow> event \<Rightarrow> int \<Rightarrow> int \<Rightarrow> int set \<Rightarrow> int \<times> event \<Rightarrow> occ option" where
  "standaloneOcc defaultMin ev windowStartMs windowEndMs used entry =
     (let recIdMs = fst entry; override = snd entry
      in if recIdMs \<in> used then None
         else if status override = Some ''CANCELLED'' then None
         else
           (case start override of
              None \<Rightarrow> None
            | Some occStartMs \<Rightarrow>
                (let occEndMs = (case endd override of
                                   Some en \<Rightarrow> en
                                 | None \<Rightarrow> occStartMs + defaultMin * 60000);
                     isInWindow = (occStartMs < windowEndMs \<and> occEndMs > windowStartMs)
                 in if isInWindow
                    then
                      (let title1 = (case jsOr (summary override) (Some (baseTitle ev)) of
                                       Some t \<Rightarrow> t | None \<Rightarrow> [])
                       in if startsWith title1 ''Canceled:'' then None
                          else Some \<lparr> occ_uid = uid override,
                                      title = title1,
                                      occ_location = jsOr (location override) (baseLocation ev),
                                      occ_organizer =
                                        jsOr (jsOr (organizer override) (organizer ev)) None,
                                      startMs = occStartMs,
                                      endMs = occEndMs,
                                      occ_status = None \<rparr>)
                    else None)))"

definition expandOccurrencesInWindow ::
  "int \<Rightarrow> event \<Rightarrow> int \<Rightarrow> int \<Rightarrow> (string \<times> (int \<times> event) list) list \<Rightarrow> occ list option" where
  "expandOccurrencesInWindow defaultMin ev windowStartMs windowEndMs overridesByUid =
     (let uidOverrides = map_of overridesByUid (evUid ev)
      in if datetype ev = DateOnly then Some []
         else
           (case start ev of
              None \<Rightarrow> Some []
            | Some evStart \<Rightarrow>
                if \<not> rrule ev
                then Some (nonRecurring defaultMin ev evStart windowStartMs windowEndMs)
                else
                  (case iterLoop (loopBody defaultMin ev windowStartMs windowEndMs uidOverrides)
                          (component ev) 0 \<lparr> loop_occs = [], usedOverrides = {} \<rparr> of
                     None \<Rightarrow> None
                   | Some st \<Rightarrow>
                       Some (loop_occs st @
                         (case uidOverrides of
                            None \<Rightarrow> []
                          | Some m \<Rightarrow>
                              List.map_filter
                                (standaloneOcc defaultMin ev windowStartMs windowEndMs
                                   (usedOverrides st)) m)))))"

text \<open>
  The exhaustive scan that the specification compares the smart skip with: the same loop
  body without the skip, so that every candidate instant below \<open>windowEndMs\<close> is processed,
  and the same expansion around it.
\<close>

definition loopBodyExhaustive ::
  "int \<Rightarrow> event \<Rightarrow> int \<Rightarrow> int \<Rightarrow> (int \<times> event) list option \<Rightarrow> int \<Rightarrow> loopState
     \<Rightarrow> loopState outcome" where
  "loopBodyExhaustive defaultMin ev windowStartMs windowEndMs uidOverrides occMs st =
     (if occMs \<ge> windowEndMs then Break
      else Continue (processCandidate defaultMin ev windowStartMs windowEndMs uidOverrides occMs st))"

definition expandExhaustive ::
  "int \<Rightarrow> event \<Rightarrow> int \<Rightarrow> int \<Rightarrow> (string \<times> (int \<times> event) list) list \<Rightarrow> occ list option" where
  "expandExhaustive defaultMin ev windowStartMs windowEndMs overridesByUid =
     (let uidOverrides = map_of overridesByUid (evUid ev)
      in if datetype ev = DateOnly then Some []
         else
           (case start ev of
              None \<Rightarrow> Some []
            | Some evStart \<Rightarrow>
                if \<not> rrule ev
                then Some (nonRecurring defaultMin ev evStart windowStartMs windowEndMs)
                else
                  (case iterLoop
                          (loopBodyExhaustive defaultMin ev windowStartMs windowEndMs uidOverrides)
                          (component ev) 0 \<lparr> loop_occs = [], usedOverrides = {} \<rparr> of
                     None \<Rightarrow> None
                   | Some st \<Rightarrow>
                       Some (loop_occs st @
                         (case uidOverrides of
                            None \<Rightarrow> []
                          | Some m \<Rightarrow>
                              List.map_filter
                                (standaloneOcc defaultMin ev windowStartMs windowEndMs
                                   (usedOverrides st)) m)))))"

section \<open>OverrideResolver and the handler's occurrence list\<close>

text \<open>
  \<open>separateMasterAndOverrides\<close>. \<open>overridesByUid\<close> is a \<open>Map\<close> from uid to a \<open>Map\<close> from
  the RECURRENCE-ID instant to the override; \<open>Map.set\<close> keeps the position of a key that is
  already there and appends a new one, which is \<open>AList.update\<close>.
\<close>

definition masterUids :: "event list \<Rightarrow> string set" where
  "masterUids events =
     set (List.map_filter
            (\<lambda>ev. if truthy (uid ev) \<and> recurrenceId ev = None then uid ev else None) events)"

definition separateStep ::
  "event \<Rightarrow> event list \<times> (string \<times> (int \<times> event) list) list
     \<Rightarrow> event list \<times> (string \<times> (int \<times> event) list) list" where
  "separateStep ev acc =
     (if \<not> truthy (uid ev) then acc
      else
        (case recurrenceId ev of
           None \<Rightarrow> (fst acc @ [ev], snd acc)
         | Some recIdMs \<Rightarrow>
             (let innerMap = (case map_of (snd acc) (evUid ev) of Some m \<Rightarrow> m | None \<Rightarrow> [])
              in (fst acc,
                  AList.update (evUid ev) (AList.update recIdMs ev innerMap) (snd acc)))))"

definition separateMasterAndOverrides ::
  "event list \<Rightarrow> event list \<times> (string \<times> (int \<times> event) list) list \<times> string set" where
  "separateMasterAndOverrides events =
     (let acc = fold separateStep events ([], [])
      in (fst acc, snd acc, masterUids events))"

text \<open>
  The handler between parsing and sorting. \<open>dayStartMs\<close> and \<open>dayEndMs\<close> are the handler's
  \<open>startMs\<close> and \<open>endMs\<close>, the bounds of today's window.
\<close>

fun expandMasters ::
  "int \<Rightarrow> int \<Rightarrow> int \<Rightarrow> int \<Rightarrow> (string \<times> (int \<times> event) list) list \<Rightarrow> event list
     \<Rightarrow> occ list option" where
  "expandMasters defaultMin dayStartMs dayEndMs nowMs overridesByUid [] = Some []"
| "expandMasters defaultMin dayStartMs dayEndMs nowMs overridesByUid (ev # evs) =
     (case expandOccurrencesInWindow defaultMin ev dayStartMs dayEndMs overridesByUid of
        None \<Rightarrow> None
      | Some expanded \<Rightarrow>
          (case expandMasters defaultMin dayStartMs dayEndMs nowMs overridesByUid evs of
             None \<Rightarrow> None
           | Some others \<Rightarrow>
               Some (filter (\<lambda>x. startMs x < dayEndMs \<and> endMs x > nowMs) expanded @ others)))"

definition orphanOcc :: "int \<Rightarrow> int \<Rightarrow> int \<Rightarrow> int \<times> event \<Rightarrow> occ option" where
  "orphanOcc defaultMin dayStartMs dayEndMs entry =
     (let override = snd entry
      in if status override = Some ''CANCELLED'' then None
         else
           (case start override of
              None \<Rightarrow> None
            | Some occStartMs \<Rightarrow>
                if occStartMs \<ge> dayStartMs \<and> occStartMs < dayEndMs
                then Some \<lparr> occ_uid = uid override,
                            title = (case jsOr (summary override) (Some ''(No title)'') of
                                       Some t \<Rightarrow> t | None \<Rightarrow> []),
                            occ_location = jsOr (location override) None,
                            occ_organizer = jsOr (organizer override) None,
                            startMs = occStartMs,
                            endMs = (case endd override of
                                       Some en \<Rightarrow> en
                                     | None \<Rightarrow> occStartMs + defaultMin * 60000),
                            occ_status = None \<rparr>
                else None))"

definition orphanedOverrides ::
  "int \<Rightarrow> int \<Rightarrow> int \<Rightarrow> string set \<Rightarrow> (string \<times> (int \<times> event) list) list \<Rightarrow> occ list" where
  "orphanedOverrides defaultMin dayStartMs dayEndMs muids overridesByUid =
     concat (map (\<lambda>entry. if fst entry \<in> muids then []
                           else List.map_filter (orphanOcc defaultMin dayStartMs dayEndMs)
                                  (snd entry))
                 overridesByUid)"

text \<open>\<open>occs.sort((a, b) => a.startMs - b.startMs)\<close> is a stable sort on \<open>startMs\<close>.\<close>

definition collectOccurrences ::
  "int \<Rightarrow> event list \<Rightarrow> int \<Rightarrow> int \<Rightarrow> int \<Rightarrow> occ list option" where
  "collectOccurrences defaultMin allEvents dayStartMs dayEndMs nowMs =
     (case separateMasterAndOverrides allEvents of
        (masterEvents, overridesByUid, muids) \<Rightarrow>
          (case expandMasters defaultMin dayStartMs dayEndMs nowMs overridesByUid masterEvents of
             None \<Rightarrow> None
           | Some expanded \<Rightarrow>
               Some (sort_key startMs
                       (expanded @
                        orphanedOverrides defaultMin dayStartMs dayEndMs muids overridesByUid))))"

text \<open>The part of the response body computed from the sorted list: metrics and triple.\<close>

definition respond :: "occ list \<Rightarrow> int \<Rightarrow> metrics \<times> triple" where
  "respond sortedOccs nowMs =
     (let tr = computeNextTriple sortedOccs nowMs
      in (computeMetrics sortedOccs nowMs (nextEv tr), tr))"

section \<open>WindowCalculator: todayWindow\<close>

text \<open>
  The zone enters through \<open>Intl.DateTimeFormat(...).formatToParts\<close> only. It is the
  parameter \<open>wallClock\<close>: \<open>wallClock t\<close> is the local date and time that the zone shows at
  the instant \<open>t\<close>, given as the epoch milliseconds of the same reading in UTC (what
  \<open>Date.UTC\<close> makes of the formatted parts). Formatting keeps whole seconds. The date
  string \<open>y-m-dT00:00:00Z\<close> built from the local date of \<open>now\<close> is the start of the UTC
  day of that reading, and \<open>setUTCDate(getUTCDate() + 1)\<close> moves it on by one UTC day.
\<close>

record window =
  win_startMs :: int
  win_endMs :: int

definition dayMs :: int where
  "dayMs = 24 * 60 * 60 * 1000"

definition shiftUtcToZonedMidnightMs :: "(int \<Rightarrow> int) \<Rightarrow> int \<Rightarrow> int" where
  "shiftUtcToZonedMidnightMs wallClock utcMidnight =
     (let asIfUtc = wholeSeconds (wallClock utcMidnight);
          offsetMs = asIfUtc - utcMidnight
      in utcMidnight - offsetMs)"

definition approxUtcMidnight :: "(int \<Rightarrow> int) \<Rightarrow> int \<Rightarrow> int" where
  "approxUtcMidnight wallClock nowMs = (wallClock nowMs div dayMs) * dayMs"

definition todayWindow :: "(int \<Rightarrow> int) \<Rightarrow> int \<Rightarrow> window" where
  "todayWindow wallClock nowMs =
     (let approx = approxUtcMidnight wallClock nowMs;
          startMs1 = shiftUtcToZonedMidnightMs wallClock approx;
          nextDayApproxUtcMidnight = approx + dayMs;
          endMs1 = shiftUtcToZonedMidnightMs wallClock nextDayApproxUtcMidnight
      in \<lparr> win_startMs = startMs1, win_endMs = endMs1 \<rparr>)"

section \<open>TimeZoneNormalizer: normalizeIcsTimezones\<close>

text \<open>
  The text is a list of characters. The lookup \<open>findIana\<close> of the package
  \<open>windows-iana\<close> is a parameter. The two regular expressions of the source are written
  out as scanners that try each position from left to right, as \<open>exec\<close> with the flag
  \<open>g\<close> and \<open>replaceAll\<close> do.
\<close>

definition isLineChar :: "char \<Rightarrow> bool" where
  "isLineChar c \<longleftrightarrow> c \<noteq> CHR 0x0D \<and> c \<noteq> CHR 0x0A"

definition isRefChar :: "char \<Rightarrow> bool" where
  "isRefChar c \<longleftrightarrow> c \<noteq> CHR '':'' \<and> c \<noteq> CHR '';'' \<and> c \<noteq> CHR 0x0D \<and> c \<noteq> CHR 0x0A"

text \<open>The index of the first occurrence of \<open>pat\<close> in \<open>s\<close>.\<close>

fun findSub :: "string \<Rightarrow> string \<Rightarrow> nat option" where
  "findSub pat [] = (if pat = [] then Some 0 else None)"
| "findSub pat (c # cs) =
     (if take (length pat) (c # cs) = pat then Some 0
      else map_option Suc (findSub pat cs))"

text \<open>
  \<open>/BEGIN:VTIMEZONE[\s\S]*?TZID:([^\r\n]+)[\s\S]*?END:VTIMEZONE/g\<close>.
  \<open>captureAt s2\<close> matches \<open>([^\r\n]+)[\s\S]*?END:VTIMEZONE\<close> at the head of \<open>s2\<close>: the
  greedy group takes the longest run of line characters after which \<open>END:VTIMEZONE\<close> still
  occurs, and the lazy gap ends at the first such occurrence. The result is the captured
  text and the number of characters matched.
\<close>

definition captureAt :: "string \<Rightarrow> (string \<times> nat) option" where
  "captureAt s2 =
     (let run = takeWhile isLineChar s2
      in case find (\<lambda>k. findSub ''END:VTIMEZONE'' (drop k s2) \<noteq> None)
                   (rev [1 ..< Suc (length run)]) of
           None \<Rightarrow> None
         | Some k \<Rightarrow>
             (case findSub ''END:VTIMEZONE'' (drop k s2) of
                None \<Rightarrow> None
              | Some q \<Rightarrow> Some (take k s2, k + q + 13)))"

text \<open>
  \<open>tzidSearch s1\<close> matches \<open>[\s\S]*?TZID:([^\r\n]+)[\s\S]*?END:VTIMEZONE\<close> at the head of
  \<open>s1\<close>: the lazy gap stops at the first \<open>TZID:\<close> from which the rest matches.
\<close>

fun tzidSearch :: "string \<Rightarrow> (string \<times> nat) option" where
  "tzidSearch [] = None"
| "tzidSearch (c # cs) =
     (case (if take 5 (c # cs) = ''TZID:'' then captureAt (drop 5 (c # cs)) else None) of
        Some (tzid, n) \<Rightarrow> Some (tzid, 5 + n)
      | None \<Rightarrow> map_option (\<lambda>(tzid, n). (tzid, Suc n)) (tzidSearch cs))"

text \<open>The \<open>while ((match = vtzRegex.exec(icsText)) !== null)\<close> loop: the captured TZIDs.\<close>

fun vtzScan :: "string \<Rightarrow> string list" where
  "vtzScan [] = []"
| "vtzScan (c # cs) =
     (case (if take 15 (c # cs) = ''BEGIN:VTIMEZONE'' then tzidSearch (drop 15 (c # cs))
            else None) of
        Some (tzid, n) \<Rightarrow> tzid # vtzScan (drop (15 + n) (c # cs))
      | None \<Rightarrow> vtzScan cs)"

text \<open>The callback given to \<open>replaceAll\<close>.\<close>

definition replaceTz :: "string set \<Rightarrow> (string \<Rightarrow> string list) \<Rightarrow> string \<Rightarrow> string \<Rightarrow> string" where
  "replaceTz vtimezones findIana match winTz =
     (if winTz \<in> vtimezones then match
      else
        (case findIana winTz of
           [] \<Rightarrow> match
         | iana # _ \<Rightarrow>
             if winTz = ''FLE Standard Time'' then ''TZID=Europe/Nicosia''
             else if winTz = ''Pacific Standard Time'' then ''TZID=America/Los_Angeles''
             else ''TZID='' @ iana))"

text \<open>
  \<open>icsText.replaceAll(/TZID=([^:;\r\n]+)/g, callback)\<close>. \<open>refMatch s\<close> matches the
  expression at the head of \<open>s\<close>: \<open>TZID=\<close> and the longest non-empty run of reference
  characters, which is the captured group. The scan replaces a match by the result of
  the callback and goes on behind it, and copies a character where no match starts.
\<close>

definition refMatch :: "string \<Rightarrow> string option" where
  "refMatch s =
     (let winTz = takeWhile isRefChar (drop 5 s)
      in if take 5 s = ''TZID='' \<and> winTz \<noteq> [] then Some winTz else None)"

fun replaceAllRefs :: "(string \<Rightarrow> string \<Rightarrow> string) \<Rightarrow> string \<Rightarrow> string" where
  "replaceAllRefs callback [] = []"
| "replaceAllRefs callback (c # cs) =
     (case refMatch (c # cs) of
        Some winTz \<Rightarrow>
          callback (''TZID='' @ winTz) winTz
            @ replaceAllRefs callback (drop (5 + length winTz) (c # cs))
      | None \<Rightarrow> c # replaceAllRefs callback cs)"

definition normalizeIcsTimezones :: "(string \<Rightarrow> string list) \<Rightarrow> string \<Rightarrow> string" where
  "normalizeIcsTimezones findIana icsText =
     replaceAllRefs (replaceTz (set (vtzScan icsText)) findIana) icsText"

text \<open>
  The references that \<open>replaceAll\<close> visits, for stating what the normalizer does to each:
  a text is cut into its reference matches (\<open>Inr winTz\<close>) and the characters between them
  (\<open>Inl c\<close>), following the scan of \<open>replaceAllRefs\<close>.
\<close>

fun refPieces :: "string \<Rightarrow> (char + string) list" where
  "refPieces [] = []"
| "refPieces (c # cs) =
     (case refMatch (c # cs) of
        Some winTz \<Rightarrow> Inr winTz # refPieces (drop (5 + length winTz) (c # cs))
      | None \<Rightarrow> Inl c # refPieces cs)"

definition pieceText :: "char + string \<Rightarrow> string" where
  "pieceText p = (case p of Inl c \<Rightarrow> [c] | Inr winTz \<Rightarrow> ''TZID='' @ winTz)"

section \<open>The earlier revisions of the handler\<close>

text \<open>
  The sources hold two earlier revisions of the handler beside the one modelled so far
  (\<open>src/unnamed/part_000\<close>): the file \<open>src/index.mjs\<close>, which parses with node-ical, and the
  revision appended to \<open>src/local-run.mjs\<close>. Where their functions differ from the ones
  above and a property below depends on the difference, they are modelled here under the
  name of the function with a suffix: \<open>_indexMjs\<close> for the text of \<open>src/index.mjs\<close> (the
  revision in \<open>src/local-run.mjs\<close> has the same text for \<open>computeNextTriple\<close> and the same
  \<open>endMs\<close> in \<open>todayWindow\<close>), \<open>_localRun\<close> for the revision in \<open>src/local-run.mjs\<close>.
\<close>

text \<open>\<open>toDto\<close> renders the instants with \<open>toISOString\<close>, which keeps the milliseconds.\<close>

definition toDto :: "occ \<Rightarrow> dto" where
  "toDto x =
     \<lparr> dto_uid = occ_uid x, dto_title = title x, dto_location = occ_location x,
       dto_organizer = occ_organizer x, dto_start = startMs x, dto_end = endMs x \<rparr>"

text \<open>
  \<open>computeNextTriple\<close> of \<open>src/index.mjs\<close>, lines 101 to 143: no current occurrence is
  looked for, and \<open>next\<close> is found by \<open>occs.findIndex((o) => o.startMs > nowMs)\<close>.
\<close>

definition computeNextTriple_indexMjs :: "occ list \<Rightarrow> int \<Rightarrow> triple" where
  "computeNextTriple_indexMjs occs nowMs =
     (case findIndex (\<lambda>x. startMs x > nowMs) occs of
        None \<Rightarrow> \<lparr> nextEv = None, nextOverlapping = None, nextNonOverlapping = None \<rparr>
      | Some nextIdx \<Rightarrow>
          (let nxt = occs ! nextIdx;
               rest = drop (nextIdx + 1) occs;
               clusterEnd = clusterScan (endMs nxt) rest
           in \<lparr> nextEv = Some (toDto nxt),
                nextOverlapping = map_option toDto (overlapScan nxt rest),
                nextNonOverlapping =
                  map_option toDto (find (\<lambda>x. startMs x \<ge> clusterEnd) rest) \<rparr>))"

text \<open>
  \<open>todayWindow\<close> of \<open>src/index.mjs\<close>, lines 318 to 339:
  \<open>const endMs = startMs + 24 * 60 * 60 * 1000\<close>.
\<close>

definition todayWindow_indexMjs :: "(int \<Rightarrow> int) \<Rightarrow> int \<Rightarrow> window" where
  "todayWindow_indexMjs wallClock nowMs =
     (let approx = approxUtcMidnight wallClock nowMs;
          startMs1 = shiftUtcToZonedMidnightMs wallClock approx;
          endMs1 = startMs1 + 24 * 60 * 60 * 1000
      in \<lparr> win_startMs = startMs1, win_endMs = endMs1 \<rparr>)"

text \<open>
  The closures \<open>calcDurationMsFromEvent\<close> and \<open>calcEndMs\<close> of \<open>src/index.mjs\<close>, lines 208 to
  232. An event object of node-ical may carry a numeric \<open>duration\<close>, which is used, when
  positive, before the default; the field is \<open>None\<close> when the object has no numeric one.
\<close>

record nodeIcalEvent = event +
  duration :: "int option"

definition calcDurationMsFromEvent_indexMjs :: "int \<Rightarrow> nodeIcalEvent \<Rightarrow> int" where
  "calcDurationMsFromEvent_indexMjs defaultMin e =
     (let explicit =
            (case start e of
               None \<Rightarrow> None
             | Some s \<Rightarrow>
                 (case endd e of
                    None \<Rightarrow> None
                  | Some en \<Rightarrow>
                      if en - s > 0 \<and> en - s < 7 * 24 * 60 * 60 * 1000 then Some (en - s)
                      else None))
      in case explicit of
           Some dur \<Rightarrow> dur
         | None \<Rightarrow>
             (case duration e of
                Some n \<Rightarrow> if n > 0 then n else defaultMin * 60000
              | None \<Rightarrow> defaultMin * 60000))"

definition calcEndMs_indexMjs ::
  "int \<Rightarrow> nodeIcalEvent \<Rightarrow> int \<Rightarrow> nodeIcalEvent option \<Rightarrow> int" where
  "calcEndMs_indexMjs defaultMin ev occStart overrideEv =
     (case overrideEv of
        None \<Rightarrow> occStart + calcDurationMsFromEvent_indexMjs defaultMin ev
      | Some ov \<Rightarrow>
          (case endd ov of
             None \<Rightarrow> occStart + calcDurationMsFromEvent_indexMjs defaultMin ov
           | Some en \<Rightarrow>
               if en > occStart then en
               else occStart + calcDurationMsFromEvent_indexMjs defaultMin ov))"

text \<open>
  \<open>normalizeIcsTimezones\<close> of the revision in \<open>src/local-run.mjs\<close>: the callback looks the
  name up without asking whether the text has a VTIMEZONE block for it.
\<close>

definition replaceTz_localRun :: "(string \<Rightarrow> string list) \<Rightarrow> string \<Rightarrow> string \<Rightarrow> string" where
  "replaceTz_localRun findIana match winTz =
     (case findIana winTz of
        [] \<Rightarrow> match
      | iana # _ \<Rightarrow>
          if winTz = ''FLE Standard Time'' then ''TZID=Europe/Nicosia''
          else ''TZID='' @ iana)"

definition normalizeIcsTimezones_localRun :: "(string \<Rightarrow> string list) \<Rightarrow> string \<Rightarrow> string" where
  "normalizeIcsTimezones_localRun findIana icsText =
     replaceAllRefs (replaceTz_localRun findIana) icsText"

section \<open>Example data\<close>

text \<open>
  Occurrences on 2026-02-09 (UTC): a stand-up 10:15--10:45, a review 10:30--11:00, a call
  12:30--13:30, a second stand-up 15:00--15:15 and an early event 08:30--09:00.
\<close>

definition occAt :: "string \<Rightarrow> int \<Rightarrow> int \<Rightarrow> occ" where
  "occAt name s e =
     \<lparr> occ_uid = Some name, title = name, occ_location = None, occ_organizer = None,
       startMs = s, endMs = e, occ_status = None \<rparr>"

definition standup :: occ where "standup = occAt ''Daily stand-up'' 1770632100000 1770633900000"
definition review :: occ where "review = occAt ''Review'' 1770633000000 1770634800000"
definition zoom :: occ where "zoom = occAt ''zoom meeting'' 1770640200000 1770643800000"
definition afternoon :: occ where "afternoon = occAt ''Daily stand-up 2'' 1770649200000 1770650100000"
definition early :: occ where "early = occAt ''Early'' 1770625800000 1770627600000"

text \<open>An iterator that returns the listed instants and is exhausted after them.\<close>

definition fromList :: "int list \<Rightarrow> nat \<Rightarrow> int option" where
  "fromList xs n = (if n < length xs then Some (xs ! n) else None)"

text \<open>
  A master 2025-11-20 11:00--11:15 whose rule yields 11:00 on 2025-11-20 and on 8, 9 and
  10 February 2026, and the window of 2026-02-09 (UTC).
\<close>

definition sync :: event where
  "sync =
     \<lparr> uid = Some ''sync-1'', summary = Some ''Sync'', location = None, organizer = None,
       start = Some 1763636400000, endd = Some 1763637300000, recurrenceId = None,
       rrule = True, exdate = [], status = None, datetype = DateTime,
       component = fromList [1763636400000, 1770548400000, 1770634800000, 1770721200000] \<rparr>"

definition feb9 :: int where "feb9 = 1770595200000"
definition feb10 :: int where "feb10 = 1770681600000"

text \<open>The same master with the instance of 2026-02-09 11:00 excluded by an EXDATE.\<close>

definition syncExcluded :: event where
  "syncExcluded = sync\<lparr> exdate := [[1770634800000]] \<rparr>"

text \<open>An override of the instance of 2026-02-09 11:00, moved to 14:00, without an end.\<close>

definition movedNoEnd :: event where
  "movedNoEnd =
     \<lparr> uid = Some ''sync-1'', summary = Some ''Sync (moved)'', location = None, organizer = None,
       start = Some 1770645600000, endd = None, recurrenceId = Some 1770634800000,
       rrule = False, exdate = [], status = None, datetype = DateTime,
       component = fromList [] \<rparr>"

text \<open>
  An override whose RECURRENCE-ID (2026-02-09 12:00) the rule never yields, with DTSTART
  and DTEND both at 14:00, and the same override under a uid that has no master.
\<close>

definition zeroLength :: event where
  "zeroLength =
     \<lparr> uid = Some ''sync-1'', summary = Some ''Extra'', location = None, organizer = None,
       start = Some 1770645600000, endd = Some 1770645600000, recurrenceId = Some 1770638400000,
       rrule = False, exdate = [], status = None, datetype = DateTime,
       component = fromList [] \<rparr>"

definition zeroLengthOrphan :: event where
  "zeroLengthOrphan = zeroLength\<lparr> uid := Some ''gone-2'' \<rparr>"

text \<open>A weekly master that lasts 48 hours, 2026-02-07 11:00 to 2026-02-09 11:00.\<close>

definition retreat :: event where
  "retreat =
     \<lparr> uid = Some ''retreat-3'', summary = Some ''Retreat'', location = None, organizer = None,
       start = Some 1770462000000, endd = Some 1770634800000, recurrenceId = None,
       rrule = True, exdate = [], status = None, datetype = DateTime,
       component = fromList [1770462000000, 1771066800000] \<rparr>"

text \<open>A master whose iterator returns the same instant for ever.\<close>

definition stuckEvent :: event where
  "stuckEvent =
     \<lparr> uid = Some ''stuck-4'', summary = Some ''Stuck'', location = None, organizer = None,
       start = Some 0, endd = Some 900000, recurrenceId = None, rrule = True, exdate = [],
       status = None, datetype = DateTime, component = (\<lambda>n. Some 0) \<rparr>"

definition durations :: "occ list \<Rightarrow> int list" where
  "durations xs = map (\<lambda>x. endMs x - startMs x) xs"

text \<open>
  A zone that is two hours ahead of UTC until 2026-03-29 01:00 UTC and three hours ahead
  from then on, as Europe/Nicosia is around that date.
\<close>

definition nicosia :: "int \<Rightarrow> int" where
  "nicosia t = t + (if t < 1774746000000 then 7200000 else 10800000)"

text \<open>
  A zone that is two hours ahead of UTC until 2026-04-23 22:00 UTC and three hours ahead
  from then on, as Africa/Cairo is around that date: its clocks go forward at local
  midnight.
\<close>

definition cairo :: "int \<Rightarrow> int" where
  "cairo t = t + (if t < 1776981600000 then 7200000 else 10800000)"

text \<open>
  A lookup table with a few legacy names, and two calendar texts: one that refers to
  \<open>FLE Standard Time\<close> and carries the VTIMEZONE block of that name, one that only
  refers to it.
\<close>

definition crlf :: string where
  "crlf = [CHR 0x0D, CHR 0x0A]"

definition winToIana :: "string \<Rightarrow> string list" where
  "winToIana winTz =
     (if winTz = ''FLE Standard Time'' then [''Europe/Kiev'', ''Europe/Helsinki'']
      else if winTz = ''Pacific Standard Time'' then [''America/Los_Angeles'']
      else if winTz = ''W. Europe Standard Time'' then [''Europe/Berlin'']
      else [])"

definition selfDescribing :: string where
  "selfDescribing =
     ''BEGIN:VTIMEZONE'' @ crlf @ ''TZID:FLE Standard Time'' @ crlf @ ''END:VTIMEZONE'' @ crlf @
     ''DTSTART;TZID=FLE Standard Time:20260209T101500'' @ crlf"

definition bareReference :: string where
  "bareReference = ''DTSTART;TZID=FLE Standard Time:20260209T101500'' @ crlf"

text \<open>A kick-off 10:20--10:50 on 2026-02-09.\<close>

definition kickoff :: occ where "kickoff = occAt ''Kick-off'' 1770632400000 1770634200000"

text \<open>
  An override of the instance of 2026-02-09 11:00, moved to 14:00, that has DTSTART and
  no DTEND: the parser reports the end of such an event as equal to its start.
\<close>

definition movedNoDtend :: event where
  "movedNoDtend =
     \<lparr> uid = Some ''sync-1'', summary = Some ''Sync (moved)'', location = None, organizer = None,
       start = Some 1770645600000, endd = Some 1770645600000, recurrenceId = Some 1770634800000,
       rrule = False, exdate = [], status = None, datetype = DateTime,
       component = fromList [] \<rparr>"

text \<open>
  An override of the same instance, moved to 14:00, with an end of its own at 14:45.
\<close>

definition movedWithEnd :: event where
  "movedWithEnd =
     \<lparr> uid = Some ''sync-1'', summary = Some ''Sync (moved)'', location = None, organizer = None,
       start = Some 1770645600000, endd = Some 1770648300000, recurrenceId = Some 1770634800000,
       rrule = False, exdate = [], status = None, datetype = DateTime,
       component = fromList [] \<rparr>"

text \<open>The master \<open>sync\<close> as an event object of node-ical, without a numeric duration.\<close>

definition syncNodeIcal :: nodeIcalEvent where
  "syncNodeIcal =
     \<lparr> uid = Some ''sync-1'', summary = Some ''Sync'', location = None, organizer = None,
       start = Some 1763636400000, endd = Some 1763637300000, recurrenceId = None,
       rrule = True, exdate = [], status = None, datetype = DateTime,
       component = fromList [], duration = None \<rparr>"

text \<open>
  An override of the instance of 2026-02-09 11:00 as an event object of node-ical: moved
  to 14:00, its end equal to its start, with a numeric duration of 30 minutes.
\<close>

definition movedNodeIcal :: nodeIcalEvent where
  "movedNodeIcal =
     \<lparr> uid = Some ''sync-1'', summary = Some ''Sync (moved)'', location = None, organizer = None,
       start = Some 1770645600000, endd = Some 1770645600000, recurrenceId = Some 1770634800000,
       rrule = False, exdate = [], status = None, datetype = DateTime,
       component = fromList [], duration = Some 1800000 \<rparr>"

text \<open>The 48-hour event \<open>retreat\<close> as a single event, without a rule.\<close>

definition retreatOnce :: event where
  "retreatOnce = retreat\<lparr> rrule := False \<rparr>"

text \<open>
  A calendar text whose VTIMEZONE block for \<open>Pacific Standard Time\<close> has an
  \<open>X-ENTOURAGE-TZID\<close> property on the line before its TZID property, and whose one event
  refers to that zone.
\<close>

definition pacificBlock :: string where
  "pacificBlock =
     ''BEGIN:VTIMEZONE'' @ crlf @
     ''X-ENTOURAGE-TZID:4'' @ crlf @
     ''TZID:Pacific Standard Time'' @ crlf @
     ''BEGIN:STANDARD'' @ crlf @
     ''DTSTART:16010101T020000'' @ crlf @
     ''TZOFFSETFROM:-0700'' @ crlf @
     ''TZOFFSETTO:-0800'' @ crlf @
     ''END:STANDARD'' @ crlf @
     ''END:VTIMEZONE'' @ crlf"

definition pacificCalendar :: string where
  "pacificCalendar =
     ''BEGIN:VCALENDAR'' @ crlf @ ''VERSION:2.0'' @ crlf @ ''PRODID:-//Test//Test//EN'' @ crlf @
     pacificBlock @
     ''BEGIN:VEVENT'' @ crlf @ ''UID:pst-1'' @ crlf @ ''DTSTAMP:20260201T000000Z'' @ crlf @
     ''DTSTART;TZID=Pacific Standard Time:20260209T090000'' @ crlf @
     ''END:VEVENT'' @ crlf @ ''END:VCALENDAR'' @ crlf"

definition pacificCalendarRewritten :: string where
  "pacificCalendarRewritten =
     ''BEGIN:VCALENDAR'' @ crlf @ ''VERSION:2.0'' @ crlf @ ''PRODID:-//Test//Test//EN'' @ crlf @
     pacificBlock @
     ''BEGIN:VEVENT'' @ crlf @ ''UID:pst-1'' @ crlf @ ''DTSTAMP:20260201T000000Z'' @ crlf @
     ''DTSTART;TZID=America/Los_Angeles:20260209T090000'' @ crlf @
     ''END:VEVENT'' @ crlf @ ''END:VCALENDAR'' @ crlf"

section \<open>Properties of the TimelineAnalyzer\<close>

lemma findIndex_None_iff: "findIndex P xs = None \<longleftrightarrow> find P xs = None"
  by (induction xs) auto

lemma findIndex_Some_nth:
  "findIndex P xs = Some i \<Longrightarrow> i < length xs \<and> find P xs = Some (xs ! i)"
  by (induction xs arbitrary: i) (auto split: if_splits)

lemma nextEv_find:
  "nextEv (computeNextTriple occs nowMs) =
     map_option toDtoWithTz (find (\<lambda>x. startMs x \<ge> searchFromMs occs nowMs) occs)"
proof (cases "findIndex (\<lambda>x. startMs x \<ge> searchFromMs occs nowMs) occs")
  case None
  moreover from None have "find (\<lambda>x. startMs x \<ge> searchFromMs occs nowMs) occs = None"
    by (simp add: findIndex_None_iff)
  ultimately show ?thesis
    by (simp add: computeNextTriple_def)
next
  case (Some i)
  then show ?thesis
    using findIndex_Some_nth [OF Some]
    by (simp add: computeNextTriple_def Let_def)
qed

lemma find_first_index:
  "i < length xs \<Longrightarrow> P (xs ! i) \<Longrightarrow> (\<forall>j<i. \<not> P (xs ! j)) \<Longrightarrow> find P xs = Some (xs ! i)"
  by (auto simp: find_Some_iff)

lemma find_none_set: "(\<forall>x\<in>set xs. \<not> P x) \<Longrightarrow> find P xs = None"
  by (simp add: find_None_iff)

lemma current_first:
  assumes "i < length occs" "startMs (occs ! i) \<le> nowMs" "nowMs < endMs (occs ! i)"
    "\<forall>j<i. \<not> (startMs (occs ! j) \<le> nowMs \<and> nowMs < endMs (occs ! j))"
  shows "find (containsNow nowMs) occs = Some (occs ! i)"
  using assms by (intro find_first_index) (auto simp: containsNow_def)

lemma current_none:
  assumes "\<forall>x\<in>set occs. \<not> (startMs x \<le> nowMs \<and> nowMs < endMs x)"
  shows "find (containsNow nowMs) occs = None"
  using assms by (intro find_none_set) (auto simp: containsNow_def)

lemmas scenario_defs = standup_def review_def zoom_def afternoon_def early_def occAt_def

text \<open>
  \<open>computeNextTriple\<close> of \<open>src/unnamed/part_000\<close>. When a current occurrence exists (the
  first one with \<open>start \<le> now < end\<close>),
  \<open>next\<close> is the first occurrence whose start is at or after the end of the current one:
  it is never the current occurrence and never starts at or before \<open>now\<close>. When no
  occurrence is current, \<open>next\<close> is the first occurrence with \<open>start \<ge> now\<close>.
\<close>

theorem next_searches_from_current_end:
  "(\<forall>i<length occs.
       startMs (occs ! i) \<le> nowMs \<and> nowMs < endMs (occs ! i) \<and>
       (\<forall>j<i. \<not> (startMs (occs ! j) \<le> nowMs \<and> nowMs < endMs (occs ! j))) \<longrightarrow>
       nextEv (computeNextTriple occs nowMs) =
         map_option toDtoWithTz (find (\<lambda>x. startMs x \<ge> endMs (occs ! i)) occs) \<and>
       (\<forall>k<length occs.
          startMs (occs ! k) \<ge> endMs (occs ! i) \<and>
          (\<forall>j<k. startMs (occs ! j) < endMs (occs ! i)) \<longrightarrow>
          nextEv (computeNextTriple occs nowMs) = Some (toDtoWithTz (occs ! k)) \<and>
          k \<noteq> i \<and> nowMs < startMs (occs ! k)))
   \<and> ((\<forall>x\<in>set occs. \<not> (startMs x \<le> nowMs \<and> nowMs < endMs x)) \<longrightarrow>
       nextEv (computeNextTriple occs nowMs) =
         map_option toDtoWithTz (find (\<lambda>x. startMs x \<ge> nowMs) occs))"
proof (intro conjI allI impI)
  fix i assume i: "i < length occs"
    and h: "startMs (occs ! i) \<le> nowMs \<and> nowMs < endMs (occs ! i) \<and>
       (\<forall>j<i. \<not> (startMs (occs ! j) \<le> nowMs \<and> nowMs < endMs (occs ! j)))"
  have "find (containsNow nowMs) occs = Some (occs ! i)"
    using i h by (intro current_first) auto
  then have sf: "searchFromMs occs nowMs = endMs (occs ! i)"
    by (simp add: searchFromMs_def)
  then show nx: "nextEv (computeNextTriple occs nowMs) =
         map_option toDtoWithTz (find (\<lambda>x. startMs x \<ge> endMs (occs ! i)) occs)"
    by (simp add: nextEv_find)
  fix k assume k: "k < length occs"
    and hk: "startMs (occs ! k) \<ge> endMs (occs ! i) \<and>
          (\<forall>j<k. startMs (occs ! j) < endMs (occs ! i))"
  have "find (\<lambda>x. startMs x \<ge> endMs (occs ! i)) occs = Some (occs ! k)"
    using k hk by (intro find_first_index) (auto simp: not_le)
  with nx show "nextEv (computeNextTriple occs nowMs) = Some (toDtoWithTz (occs ! k))"
    by simp
  show "k \<noteq> i" using h hk by auto
  show "nowMs < startMs (occs ! k)" using h hk by auto
next
  assume "\<forall>x\<in>set occs. \<not> (startMs x \<le> nowMs \<and> nowMs < endMs x)"
  then have "find (containsNow nowMs) occs = None"
    by (rule current_none)
  then have "searchFromMs occs nowMs = nowMs"
    by (simp add: searchFromMs_def)
  then show "nextEv (computeNextTriple occs nowMs) =
         map_option toDtoWithTz (find (\<lambda>x. startMs x \<ge> nowMs) occs)"
    by (simp add: nextEv_find)
qed


text \<open>
  At 10:20 the stand-up is current and \<open>next\<close> is the 12:30 call, although the review
  (10:30) is the first occurrence that starts after \<open>now\<close>.
\<close>

theorem next_searches_from_current_end_witness:
  "nextEv (computeNextTriple [standup, review, zoom, afternoon] 1770632400000)
     = Some (toDtoWithTz zoom)
   \<and> find (\<lambda>x. startMs x > 1770632400000) [standup, review, zoom, afternoon] = Some review
   \<and> nextEv (computeNextTriple [zoom, afternoon] 1770632400000) = Some (toDtoWithTz zoom)"
proof -
  let ?occs = "[standup, review, zoom, afternoon]"
  let ?now = "1770632400000 :: int"
  have len: "0 < length ?occs" "2 < length ?occs"
    by simp_all
  have cur: "startMs (?occs ! 0) \<le> ?now \<and> ?now < endMs (?occs ! 0) \<and>
       (\<forall>j<0. \<not> (startMs (?occs ! j) \<le> ?now \<and> ?now < endMs (?occs ! j)))"
    by (simp add: scenario_defs)
  have nxt: "startMs (?occs ! 2) \<ge> endMs (?occs ! 0) \<and>
          (\<forall>j<2. startMs (?occs ! j) < endMs (?occs ! 0))"
    by (simp add: scenario_defs less_Suc_eq numeral_2_eq_2)
  note thm1 = next_searches_from_current_end
    [of ?occs ?now, THEN conjunct1, rule_format, OF len(1) cur, THEN conjunct2,
     rule_format, OF len(2) nxt, THEN conjunct1]
  have a: "nextEv (computeNextTriple ?occs ?now) = Some (toDtoWithTz zoom)"
    using thm1 by simp
  have none: "\<forall>x\<in>set [zoom, afternoon]. \<not> (startMs x \<le> ?now \<and> ?now < endMs x)"
    by (simp add: scenario_defs)
  note thm2 = next_searches_from_current_end
    [of "[zoom, afternoon]" ?now, THEN conjunct2, THEN mp, OF none]
  have b: "nextEv (computeNextTriple [zoom, afternoon] ?now) = Some (toDtoWithTz zoom)"
    using thm2 by (simp add: scenario_defs)
  have c: "find (\<lambda>x. startMs x > ?now) ?occs = Some review"
    by (simp add: scenario_defs)
  from a b c show ?thesis by simp
qed

text \<open>
  Claim C2. When a current occurrence exists, \<open>next\<close> is the first occurrence whose start
  is at or after the end of the current one. \<open>computeNextTriple\<close> of
  \<open>src/unnamed/part_000\<close> does this (\<open>next_searches_from_current_end\<close>).
  \<open>computeNextTriple\<close> of \<open>src/index.mjs\<close>, which the revision in \<open>src/local-run.mjs\<close> has
  too, does not: it looks for no current occurrence and takes the first occurrence with
  \<open>start > now\<close>. At 10:20 the kick-off 10:20--10:50 is under way; the handler of the
  revision in \<open>src/local-run.mjs\<close> keeps the occurrences with \<open>start \<ge> now\<close>, so the list
  reaches the function as it is. The function answers the review of 10:30, which begins
  while the kick-off lasts; the first occurrence that starts at or after the end of the
  kick-off is the call of 12:30, which is the answer of \<open>src/unnamed/part_000\<close>.
\<close>

theorem next_ignores_current_indexMjs:
  "nextEv (computeNextTriple_indexMjs [kickoff, review, zoom, afternoon] 1770632400000)
     = Some (toDto review)
   \<and> find (containsNow 1770632400000) [kickoff, review, zoom, afternoon] = Some kickoff
   \<and> startMs review < endMs kickoff
   \<and> find (\<lambda>x. startMs x \<ge> endMs kickoff) [kickoff, review, zoom, afternoon] = Some zoom
   \<and> nextEv (computeNextTriple [kickoff, review, zoom, afternoon] 1770632400000)
       = Some (toDtoWithTz zoom)
   \<and> filter (\<lambda>x. startMs x \<ge> 1770632400000 \<and> startMs x < feb10)
        [kickoff, review, zoom, afternoon] = [kickoff, review, zoom, afternoon]"
  by (simp add: computeNextTriple_indexMjs_def computeNextTriple_def searchFromMs_def
      containsNow_def kickoff_def scenario_defs feb10_def Let_def)

text \<open>
  Claim C3. \<open>current\<close> is the first occurrence with \<open>start \<le> now < end\<close>, in
  \<open>computeMetrics\<close> and in \<open>computeNextTriple\<close> alike. An occurrence that ends exactly at
  \<open>now\<close> is never the current one, and when every occurrence that has started has ended by
  \<open>now\<close> there is no current occurrence and \<open>isOverlappingNow\<close> is false. An occurrence that
  starts exactly at \<open>now\<close> and ends later makes \<open>isOverlappingNow\<close> true, and it is the
  current one unless an occurrence listed before it contains \<open>now\<close> too.
\<close>

theorem current_is_first_half_open:
  "(\<forall>i<length occs.
       startMs (occs ! i) \<le> nowMs \<and> nowMs < endMs (occs ! i) \<and>
       (\<forall>j<i. \<not> (startMs (occs ! j) \<le> nowMs \<and> nowMs < endMs (occs ! j))) \<longrightarrow>
       current (computeMetrics occs nowMs nd) = Some (toDtoWithTz (occs ! i)) \<and>
       isOverlappingNow (computeMetrics occs nowMs nd) \<and>
       searchFromMs occs nowMs = endMs (occs ! i))
   \<and> ((\<forall>x\<in>set occs. \<not> (startMs x \<le> nowMs \<and> nowMs < endMs x)) \<longrightarrow>
       current (computeMetrics occs nowMs nd) = None \<and>
       \<not> isOverlappingNow (computeMetrics occs nowMs nd) \<and>
       searchFromMs occs nowMs = nowMs)
   \<and> ((\<forall>x\<in>set occs. startMs x \<le> nowMs \<longrightarrow> endMs x \<le> nowMs) \<longrightarrow>
       current (computeMetrics occs nowMs nd) = None \<and>
       \<not> isOverlappingNow (computeMetrics occs nowMs nd))
   \<and> (\<forall>d. current (computeMetrics occs nowMs nd) = Some d \<longrightarrow>
         (\<exists>i<length occs. d = toDtoWithTz (occs ! i) \<and>
            startMs (occs ! i) \<le> nowMs \<and> nowMs < endMs (occs ! i) \<and> endMs (occs ! i) \<noteq> nowMs \<and>
            (\<forall>j<i. \<not> (startMs (occs ! j) \<le> nowMs \<and> nowMs < endMs (occs ! j)))))
   \<and> (\<forall>i<length occs.
        startMs (occs ! i) = nowMs \<and> nowMs < endMs (occs ! i) \<longrightarrow>
        isOverlappingNow (computeMetrics occs nowMs nd) \<and>
        current (computeMetrics occs nowMs nd) \<noteq> None \<and>
        ((\<forall>j<i. \<not> (startMs (occs ! j) \<le> nowMs \<and> nowMs < endMs (occs ! j))) \<longrightarrow>
         current (computeMetrics occs nowMs nd) = Some (toDtoWithTz (occs ! i))))"
proof (intro conjI allI impI)
  fix i assume i: "i < length occs"
    and h: "startMs (occs ! i) \<le> nowMs \<and> nowMs < endMs (occs ! i) \<and>
       (\<forall>j<i. \<not> (startMs (occs ! j) \<le> nowMs \<and> nowMs < endMs (occs ! j)))"
  have f: "find (containsNow nowMs) occs = Some (occs ! i)"
    using i h by (intro current_first) auto
  then show "current (computeMetrics occs nowMs nd) = Some (toDtoWithTz (occs ! i))"
    by (simp add: computeMetrics_def)
  from f show "isOverlappingNow (computeMetrics occs nowMs nd)"
    by (auto simp: computeMetrics_def list_ex_iff find_Some_iff)
  from f show "searchFromMs occs nowMs = endMs (occs ! i)"
    by (simp add: searchFromMs_def)
next
  assume "\<forall>x\<in>set occs. \<not> (startMs x \<le> nowMs \<and> nowMs < endMs x)"
  then have f: "find (containsNow nowMs) occs = None"
    by (rule current_none)
  then show "current (computeMetrics occs nowMs nd) = None"
    by (simp add: computeMetrics_def)
  from f show "\<not> isOverlappingNow (computeMetrics occs nowMs nd)"
    by (simp add: computeMetrics_def list_ex_iff find_None_iff)
  from f show "searchFromMs occs nowMs = nowMs"
    by (simp add: searchFromMs_def)
next
  assume "\<forall>x\<in>set occs. startMs x \<le> nowMs \<longrightarrow> endMs x \<le> nowMs"
  then have "\<forall>x\<in>set occs. \<not> (startMs x \<le> nowMs \<and> nowMs < endMs x)"
    by auto
  then have f: "find (containsNow nowMs) occs = None"
    by (rule current_none)
  then show "current (computeMetrics occs nowMs nd) = None"
    by (simp add: computeMetrics_def)
  from f show "\<not> isOverlappingNow (computeMetrics occs nowMs nd)"
    by (simp add: computeMetrics_def list_ex_iff find_None_iff)
next
  fix d assume "current (computeMetrics occs nowMs nd) = Some d"
  then obtain c where c: "find (containsNow nowMs) occs = Some c" and d: "d = toDtoWithTz c"
    by (auto simp: computeMetrics_def)
  from c obtain i where "i < length occs" "containsNow nowMs (occs ! i)" "c = occs ! i"
    "\<forall>j<i. \<not> containsNow nowMs (occs ! j)"
    by (auto simp: find_Some_iff)
  with d show "\<exists>i<length occs. d = toDtoWithTz (occs ! i) \<and>
            startMs (occs ! i) \<le> nowMs \<and> nowMs < endMs (occs ! i) \<and> endMs (occs ! i) \<noteq> nowMs \<and>
            (\<forall>j<i. \<not> (startMs (occs ! j) \<le> nowMs \<and> nowMs < endMs (occs ! j)))"
    by (auto simp: containsNow_def intro!: exI [of _ i])
next
  fix i assume i: "i < length occs"
    and h: "startMs (occs ! i) = nowMs \<and> nowMs < endMs (occs ! i)"
  then have m: "occs ! i \<in> set occs" "containsNow nowMs (occs ! i)"
    by (auto simp: containsNow_def)
  then show "isOverlappingNow (computeMetrics occs nowMs nd)"
    by (auto simp: computeMetrics_def list_ex_iff)
  from m show "current (computeMetrics occs nowMs nd) \<noteq> None"
    by (auto simp: computeMetrics_def find_None_iff)
  assume "\<forall>j<i. \<not> (startMs (occs ! j) \<le> nowMs \<and> nowMs < endMs (occs ! j))"
  with i h have "find (containsNow nowMs) occs = Some (occs ! i)"
    by (intro current_first) auto
  then show "current (computeMetrics occs nowMs nd) = Some (toDtoWithTz (occs ! i))"
    by (simp add: computeMetrics_def)
qed


text \<open>The event 08:30--09:00 at 09:00 sharp, and the stand-up at 10:15 sharp.\<close>

theorem current_is_first_half_open_witness:
  "current (computeMetrics [early] 1770627600000 None) = None
   \<and> \<not> isOverlappingNow (computeMetrics [early] 1770627600000 None)
   \<and> current (computeMetrics [early, standup] 1770632100000 None) = Some (toDtoWithTz standup)
   \<and> isOverlappingNow (computeMetrics [early, standup] 1770632100000 None)"
proof -
  have ended: "\<forall>x\<in>set [early]. startMs x \<le> 1770627600000 \<longrightarrow> endMs x \<le> 1770627600000"
    by (simp add: scenario_defs)
  note a = current_is_first_half_open
    [of "[early]" 1770627600000 None, THEN conjunct2, THEN conjunct2, THEN conjunct1,
     THEN mp, OF ended]
  have len: "1 < length [early, standup]"
    by simp
  have starts: "startMs ([early, standup] ! 1) = 1770632100000 \<and>
      1770632100000 < endMs ([early, standup] ! 1)"
    by (simp add: scenario_defs)
  have first: "\<forall>j<1. \<not> (startMs ([early, standup] ! j) \<le> 1770632100000 \<and>
      1770632100000 < endMs ([early, standup] ! j))"
    by (simp add: scenario_defs)
  note b = current_is_first_half_open
    [of "[early, standup]" 1770632100000 None, THEN conjunct2, THEN conjunct2,
     THEN conjunct2, THEN conjunct2, rule_format, OF len starts]
  from b have b1: "isOverlappingNow (computeMetrics [early, standup] 1770632100000 None)"
    by (rule conjunct1)
  from b have "(\<forall>j<1. \<not> (startMs ([early, standup] ! j) \<le> 1770632100000 \<and>
      1770632100000 < endMs ([early, standup] ! j))) \<longrightarrow>
     current (computeMetrics [early, standup] 1770632100000 None)
       = Some (toDtoWithTz ([early, standup] ! 1))"
    by simp
  with first have b2: "current (computeMetrics [early, standup] 1770632100000 None)
       = Some (toDtoWithTz ([early, standup] ! 1))"
    by (rule rev_mp)
  from a b1 b2 show ?thesis by simp
qed

text \<open>
  Claim C10. \<open>isOverlappingNow\<close> is true exactly when \<open>current\<close> is not \<open>null\<close>.
\<close>

theorem overlapping_iff_current:
  "isOverlappingNow (computeMetrics occs nowMs nd) \<longleftrightarrow> current (computeMetrics occs nowMs nd) \<noteq> None"
  by (auto simp: computeMetrics_def list_ex_iff find_None_iff)

section \<open>Properties of the recurrence loop\<close>

lemma iterLoop_None: "it n = None \<Longrightarrow> iterLoop body it n st = Some st"
  by (subst iterLoop.simps) simp

lemma iterLoop_Some:
  "it n = Some t \<Longrightarrow>
   iterLoop body it n st =
     (case body t st of Break \<Rightarrow> Some st | Continue st' \<Rightarrow> iterLoop body it (Suc n) st')"
  by (subst iterLoop.simps) simp

lemma iterLoop_returns_stop:
  assumes "iterLoop body it n st = Some y"
  shows "\<exists>m\<ge>n. it m = None \<or> (\<exists>t s. it m = Some t \<and> body t s = Break)"
  using assms
proof (induction rule: iterLoop.raw_induct [rotated 1, consumes 1])
  case (1 loop body it n st y)
  show ?case
  proof (cases "it n")
    case None
    then show ?thesis by blast
  next
    case (Some t)
    show ?thesis
    proof (cases "body t st")
      case Break
      with Some show ?thesis by blast
    next
      case (Continue st')
      with Some 1(2) have "loop body it (Suc n) st' = Some y"
        by simp
      from 1(1) [OF this] obtain m where "m \<ge> Suc n"
        "it m = None \<or> (\<exists>t s. it m = Some t \<and> body t s = Break)"
        by blast
      then show ?thesis
        by (intro exI [of _ m]) auto
    qed
  qed
qed

lemma iterLoop_stop_returns:
  assumes "n \<le> m" "it m = None \<or> (\<exists>t. it m = Some t \<and> (\<forall>s. body t s = Break))"
  shows "\<exists>y. iterLoop body it n st = Some y"
  using assms
proof (induction "m - n" arbitrary: n st)
  case 0
  then have "n = m" by simp
  with 0(3) show ?case
    by (subst iterLoop.simps) (auto split: option.splits outcome.splits)
next
  case (Suc k)
  then have "k = m - Suc n" "Suc n \<le> m" by simp_all
  from Suc(1) [OF this Suc(4)] have ih: "\<And>st'. \<exists>y. iterLoop body it (Suc n) st' = Some y" .
  show ?case
  proof (cases "it n")
    case None
    then show ?thesis by (subst iterLoop.simps) simp
  next
    case (Some t)
    show ?thesis
    proof (cases "body t st")
      case Break
      with Some show ?thesis by (subst iterLoop.simps) simp
    next
      case (Continue st')
      with Some ih [of st'] show ?thesis by (subst iterLoop.simps) simp
    qed
  qed
qed

lemma loopBody_Break_iff:
  "loopBody d ev ws we ovs t s = Break \<longleftrightarrow> t \<ge> we"
  by (simp add: loopBody_def)

lemma iterLoop_invariant:
  assumes "iterLoop body it n st = Some y"
    and "I st"
    and "\<And>t s s'. I s \<Longrightarrow> body t s = Continue s' \<Longrightarrow> I s'"
  shows "I y"
  using assms
proof (induction rule: iterLoop.raw_induct [rotated 1, consumes 1])
  case (1 loop body it n st y)
  show ?case
  proof (cases "it n")
    case None
    with 1(2,3) show ?thesis by simp
  next
    case (Some t)
    show ?thesis
    proof (cases "body t st")
      case Break
      with Some 1(2,3) show ?thesis by simp
    next
      case (Continue st')
      with Some 1(2) have "loop body it (Suc n) st' = Some y"
        by simp
      moreover from 1(3) Continue have "I st'"
        by (rule 1(4))
      ultimately show ?thesis
        using 1(4) by (rule 1(1))
    qed
  qed
qed

lemma iterLoop_cong_Some:
  assumes "iterLoop body1 it n st = Some y"
    and "\<And>m t s. it m = Some t \<Longrightarrow> body1 t s = body2 t s"
  shows "iterLoop body2 it n st = Some y"
  using assms
proof (induction rule: iterLoop.raw_induct [rotated 1, consumes 1])
  case (1 loop body1 it n st y)
  show ?case
  proof (cases "it n")
    case None
    with 1(2) show ?thesis
      by (subst iterLoop.simps) simp
  next
    case (Some t)
    then have eq: "body1 t st = body2 t st"
      by (rule 1(3))
    show ?thesis
    proof (cases "body2 t st")
      case Break
      with Some eq 1(2) show ?thesis
        by (subst iterLoop.simps) simp
    next
      case (Continue st')
      with Some eq 1(2) have "loop body1 it (Suc n) st' = Some y"
        by simp
      then have "iterLoop body2 it (Suc n) st' = Some y"
        using 1(3) by (rule 1(1))
      with Some Continue show ?thesis
        by (subst iterLoop.simps) simp
    qed
  qed
qed

lemma iterLoop_cong:
  assumes "\<And>m t s. it m = Some t \<Longrightarrow> body1 t s = body2 t s"
  shows "iterLoop body1 it n st = iterLoop body2 it n st"
proof (cases "iterLoop body1 it n st")
  case (Some y)
  with iterLoop_cong_Some [OF Some, of body2] assms show ?thesis
    by simp
next
  case None
  show ?thesis
  proof (cases "iterLoop body2 it n st")
    case (Some y)
    from iterLoop_cong_Some [OF Some, of body1] assms
    have "iterLoop body1 it n st = Some y"
      by simp
    with None show ?thesis by simp
  qed (simp add: None)
qed

lemma fromList_Nil: "fromList [] n = None"
  by (simp add: fromList_def)

lemma fromList_Cons_0: "fromList (x # xs) 0 = Some x"
  by (simp add: fromList_def)

lemma fromList_Cons_Suc: "fromList (x # xs) (Suc n) = fromList xs n"
  by (simp add: fromList_def)

lemma iterLoop_fromList_Nil: "iterLoop body (fromList []) n st = Some st"
  by (rule iterLoop_None) (simp add: fromList_def)

lemma iterLoop_shift:
  "iterLoop body (fromList (x # xs)) (Suc n) st = iterLoop body (fromList xs) n st"
proof -
  have "iterLoop body (fromList (x # xs)) (Suc n) st = Some y \<Longrightarrow>
        iterLoop body (fromList xs) n st = Some y" for y
  proof (induction "fromList (x # xs)" "Suc n" st y arbitrary: n
      rule: iterLoop.raw_induct [rotated 1, consumes 1])
    case (1 loop body st y)
    then show ?case
      by (subst iterLoop.simps)
        (auto simp: fromList_Cons_Suc split: option.splits outcome.splits)
  qed
  moreover have "iterLoop body (fromList xs) n st = Some y \<Longrightarrow>
        iterLoop body (fromList (x # xs)) (Suc n) st = Some y" for y
  proof (induction "fromList xs" n st y
      rule: iterLoop.raw_induct [rotated 1, consumes 1])
    case (1 loop body n st y)
    then show ?case
      by (subst iterLoop.simps)
        (auto simp: fromList_Cons_Suc split: option.splits outcome.splits)
  qed
  ultimately show ?thesis
    by (cases "iterLoop body (fromList (x # xs)) (Suc n) st";
        cases "iterLoop body (fromList xs) n st") auto
qed

lemma iterLoop_fromList_Cons:
  "iterLoop body (fromList (x # xs)) 0 st =
     (case body x st of Break \<Rightarrow> Some st | Continue st' \<Rightarrow> iterLoop body (fromList xs) 0 st')"
  by (subst iterLoop.simps) (simp add: fromList_Cons_0 iterLoop_shift split: outcome.split)

lemmas expand_eval =
  expandOccurrencesInWindow_def iterLoop_fromList_Cons iterLoop_fromList_Nil loopBody_def
  processCandidate_def overrideAt_def isExcluded_def mkOcc_def calcEndMs_def calcDurationMsFromEvent_def
  isCancelled_def startsWith_def jsOr_def jsCoalesce_def truthy_def evUid_def baseTitle_def
  baseLocation_def standaloneOcc_def nonRecurring_def List.map_filter_def Let_def

lemma iteration_returns_iff_terminator_reached:
  "(\<exists>y. iterLoop (loopBody defaultMin ev windowStartMs windowEndMs uidOverrides) it 0 st = Some y)
     \<longleftrightarrow> (\<exists>m. it m = None \<or> (\<exists>t. it m = Some t \<and> t \<ge> windowEndMs))"
proof
  assume "\<exists>y. iterLoop (loopBody defaultMin ev windowStartMs windowEndMs uidOverrides) it 0 st = Some y"
  then obtain y where
    "iterLoop (loopBody defaultMin ev windowStartMs windowEndMs uidOverrides) it 0 st = Some y" ..
  from iterLoop_returns_stop [OF this]
  show "\<exists>m. it m = None \<or> (\<exists>t. it m = Some t \<and> t \<ge> windowEndMs)"
    by (auto simp: loopBody_Break_iff)
next
  assume "\<exists>m. it m = None \<or> (\<exists>t. it m = Some t \<and> t \<ge> windowEndMs)"
  then obtain m where "it m = None \<or> (\<exists>t. it m = Some t \<and> t \<ge> windowEndMs)" ..
  then have "it m = None \<or> (\<exists>t. it m = Some t \<and>
      (\<forall>s. loopBody defaultMin ev windowStartMs windowEndMs uidOverrides t s = Break))"
    by (auto simp: loopBody_Break_iff)
  from iterLoop_stop_returns [of 0 m it _ st, OF _ this]
  show "\<exists>y. iterLoop (loopBody defaultMin ev windowStartMs windowEndMs uidOverrides) it 0 st = Some y"
    by simp
qed

text \<open>
  Claim C5, as amended. The loop has no iteration count that stops it: an expansion
  returns exactly when the event is not expanded by the loop at all (all-day, without a
  start, or without a rule), or the iterator is exhausted at some position, or it yields
  an instant at or after \<open>windowEndMs\<close> at some position.
\<close>

theorem expansion_returns_iff_terminator_reached:
  "expandOccurrencesInWindow defaultMin ev windowStartMs windowEndMs overridesByUid \<noteq> None
     \<longleftrightarrow> datetype ev = DateOnly \<or> start ev = None \<or> \<not> rrule ev \<or>
         (\<exists>m. component ev m = None \<or> (\<exists>t. component ev m = Some t \<and> t \<ge> windowEndMs))"
proof -
  let ?loop = "iterLoop (loopBody defaultMin ev windowStartMs windowEndMs
                 (map_of overridesByUid (evUid ev))) (component ev) 0
                 \<lparr> loop_occs = [], usedOverrides = {} \<rparr>"
  have "(\<exists>y. ?loop = Some y)
     \<longleftrightarrow> (\<exists>m. component ev m = None \<or> (\<exists>t. component ev m = Some t \<and> t \<ge> windowEndMs))"
    by (rule iteration_returns_iff_terminator_reached)
  then have "?loop \<noteq> None
     \<longleftrightarrow> (\<exists>m. component ev m = None \<or> (\<exists>t. component ev m = Some t \<and> t \<ge> windowEndMs))"
    by simp
  then show ?thesis
    by (auto simp: expandOccurrencesInWindow_def Let_def split: option.splits)
qed

text \<open>The rule of \<open>sync\<close> reaches 2026-02-10 11:00, past the window, at its fourth call.\<close>

theorem expansion_returns_iff_terminator_reached_witness:
  "component sync 3 = Some 1770721200000 \<and> (1770721200000::int) \<ge> feb10
   \<and> expandOccurrencesInWindow 60 sync feb9 feb10 [] \<noteq> None"
proof -
  have c: "component sync 3 = Some 1770721200000"
    by (simp add: sync_def fromList_def)
  have g: "(1770721200000::int) \<ge> feb10"
    by (simp add: feb10_def)
  from c g have "\<exists>m. component sync m = None \<or> (\<exists>t. component sync m = Some t \<and> t \<ge> feb10)"
    by blast
  then have "expandOccurrencesInWindow 60 sync feb9 feb10 [] \<noteq> None"
    using expansion_returns_iff_terminator_reached [of 60 sync feb9 feb10 "[]"] by blast
  with c g show ?thesis
    by simp
qed

text \<open>
  An iterator that yields the instant \<open>0\<close> for ever never reaches the end of the window
  \<open>[0, 86400000)\<close>, and the expansion does not return.
\<close>

theorem iteration_without_cap_counterexample:
  "expandOccurrencesInWindow 60 stuckEvent 0 86400000 [] = None"
proof -
  let ?loop = "iterLoop (loopBody 60 stuckEvent 0 86400000 None) (component stuckEvent) 0
                 \<lparr> loop_occs = [], usedOverrides = {} \<rparr>"
  have "?loop = None"
  proof (cases ?loop)
    case (Some y)
    from iterLoop_returns_stop [OF this]
    have "\<exists>m. component stuckEvent m = None \<or>
            (\<exists>t. component stuckEvent m = Some t \<and> t \<ge> 86400000)"
      by (auto simp: loopBody_Break_iff)
    then show ?thesis
      by (simp add: stuckEvent_def)
  qed simp
  then show ?thesis
    by (simp add: expandOccurrencesInWindow_def stuckEvent_def)
qed

section \<open>Properties of the OccurrenceExpander\<close>

lemma processCandidate_occs:
  "loop_occs (processCandidate d ev ws we ovs t st) = loop_occs st \<or>
   loop_occs (processCandidate d ev ws we ovs t st) =
     loop_occs st @ [mkOcc d ev (case Option.bind (overrideAt ovs t) start of
                                   Some s \<Rightarrow> s | None \<Rightarrow> t) (overrideAt ovs t)]"
  by (simp add: processCandidate_def Let_def)

lemma mkOcc_times:
  "startMs (mkOcc d ev t ov) = t" "endMs (mkOcc d ev t ov) = calcEndMs d ev t ov"
  by (simp_all add: mkOcc_def)

lemma calcDuration_master:
  assumes "start ev = Some s" "endd ev = Some e" "0 < e - s" "e - s < 7 * 24 * 60 * 60 * 1000"
  shows "calcDurationMsFromEvent d ev = e - s"
  using assms by (simp add: calcDurationMsFromEvent_def)

lemma calcDuration_indexMjs_master:
  assumes "start evL = Some s" "endd evL = Some e" "0 < e - s" "e - s < 7 * 24 * 60 * 60 * 1000"
  shows "calcDurationMsFromEvent_indexMjs d evL = e - s"
  using assms by (simp add: calcDurationMsFromEvent_indexMjs_def)

lemma calcEndMs_override_rule:
  "calcEndMs d ev (case start ov of Some t \<Rightarrow> t | None \<Rightarrow> c) (Some ov)
     = (case endd ov of
          Some en \<Rightarrow>
            if en > (case start ov of Some t \<Rightarrow> t | None \<Rightarrow> c) then en
            else (case start ov of Some t \<Rightarrow> t | None \<Rightarrow> c) + d * 60000
        | None \<Rightarrow> (case start ov of Some t \<Rightarrow> t | None \<Rightarrow> c) + d * 60000)"
  by (auto simp: calcEndMs_def calcDurationMsFromEvent_def Let_def split: option.splits)

lemma calcEndMs_indexMjs_override_rule:
  "calcEndMs_indexMjs d evL (case start ovL of Some t \<Rightarrow> t | None \<Rightarrow> c) (Some ovL)
     = (case endd ovL of
          Some en \<Rightarrow>
            if en > (case start ovL of Some t \<Rightarrow> t | None \<Rightarrow> c) then en
            else (case start ovL of Some t \<Rightarrow> t | None \<Rightarrow> c) +
                 (case duration ovL of
                    Some n \<Rightarrow> if n > 0 then n else d * 60000
                  | None \<Rightarrow> d * 60000)
        | None \<Rightarrow>
            (case start ovL of Some t \<Rightarrow> t | None \<Rightarrow> c) +
            (case duration ovL of
               Some n \<Rightarrow> if n > 0 then n else d * 60000
             | None \<Rightarrow> d * 60000))"
  by (auto simp: calcEndMs_indexMjs_def calcDurationMsFromEvent_indexMjs_def Let_def
      split: option.splits)

text \<open>
  Claim C1, as amended. Let the master have the duration \<open>d = e - s\<close> with \<open>0 < d\<close> below
  one week. An occurrence built without an override, from a candidate instant \<open>c\<close>,
  starts at \<open>c\<close>, lasts exactly \<open>d\<close>, and ends at the master's own end \<open>e\<close> only if \<open>c\<close> is
  the master's own start \<open>s\<close>; this holds for \<open>calcEndMs\<close> of \<open>src/index.mjs\<close> as well. An
  occurrence that the loop builds from the override found at its candidate instant starts
  at the start \<open>t\<close> of the override (at the candidate when the override has none) and ends
  at the end of the override when that end is later than \<open>t\<close>, and otherwise at \<open>t\<close> plus
  the default duration; in \<open>src/index.mjs\<close> a positive numeric duration of the override
  comes before the default. \<open>d\<close> is not applied to it. Every occurrence of the result is
  of one of these two kinds or comes from the pass over the unused overrides, about
  which nothing is said here.
\<close>

theorem recurrence_duration_law:
  assumes "start ev = Some s" and "endd ev = Some e"
    and "start evL = Some s" and "endd evL = Some e"
    and "0 < e - s" and "e - s < 7 * 24 * 60 * 60 * 1000"
  shows "(\<forall>c. startMs (mkOcc defaultMin ev c None) = c \<and>
              endMs (mkOcc defaultMin ev c None) - c = e - s \<and>
              (c \<noteq> s \<longrightarrow> endMs (mkOcc defaultMin ev c None) \<noteq> e) \<and>
              calcEndMs_indexMjs defaultMin evL c None - c = e - s)
       \<and> (\<forall>c override t.
             t = (case start override of Some t' \<Rightarrow> t' | None \<Rightarrow> c) \<longrightarrow>
             startMs (mkOcc defaultMin ev t (Some override)) = t \<and>
             endMs (mkOcc defaultMin ev t (Some override)) =
               (case endd override of
                  Some en \<Rightarrow> if en > t then en else t + defaultMin * 60000
                | None \<Rightarrow> t + defaultMin * 60000))
       \<and> (\<forall>c overrideL t.
             t = (case start overrideL of Some t' \<Rightarrow> t' | None \<Rightarrow> c) \<longrightarrow>
             calcEndMs_indexMjs defaultMin evL t (Some overrideL) =
               (case endd overrideL of
                  Some en \<Rightarrow>
                    if en > t then en
                    else t + (case duration overrideL of
                                Some n \<Rightarrow> if n > 0 then n else defaultMin * 60000
                              | None \<Rightarrow> defaultMin * 60000)
                | None \<Rightarrow>
                    t + (case duration overrideL of
                           Some n \<Rightarrow> if n > 0 then n else defaultMin * 60000
                         | None \<Rightarrow> defaultMin * 60000)))
       \<and> (\<forall>windowStartMs windowEndMs overridesByUid result x.
             expandOccurrencesInWindow defaultMin ev windowStartMs windowEndMs overridesByUid
               = Some result \<longrightarrow>
             x \<in> set result \<longrightarrow>
             (\<exists>c. x = mkOcc defaultMin ev c None)
             \<or> (\<exists>m recIdMs override.
                   map_of overridesByUid (evUid ev) = Some m \<and> (recIdMs, override) \<in> set m \<and>
                   x = mkOcc defaultMin ev
                         (case start override of Some t \<Rightarrow> t | None \<Rightarrow> recIdMs)
                         (Some override))
             \<or> (\<exists>m recIdMs override used.
                   map_of overridesByUid (evUid ev) = Some m \<and> (recIdMs, override) \<in> set m \<and>
                   standaloneOcc defaultMin ev windowStartMs windowEndMs used
                     (recIdMs, override) = Some x))"
proof (intro conjI allI impI)
  have dur: "calcDurationMsFromEvent defaultMin ev = e - s"
    using assms(1,2,5,6) by (rule calcDuration_master)
  have durL: "calcDurationMsFromEvent_indexMjs defaultMin evL = e - s"
    using assms(3-6) by (rule calcDuration_indexMjs_master)
  fix c
  show "startMs (mkOcc defaultMin ev c None) = c"
    by (simp add: mkOcc_times)
  show "endMs (mkOcc defaultMin ev c None) - c = e - s"
    by (simp add: mkOcc_times calcEndMs_def dur)
  show "endMs (mkOcc defaultMin ev c None) \<noteq> e" if "c \<noteq> s"
    using that by (simp add: mkOcc_times calcEndMs_def dur)
  show "calcEndMs_indexMjs defaultMin evL c None - c = e - s"
    by (simp add: calcEndMs_indexMjs_def durL)
next
  fix c :: int and override :: event and t
  assume t: "t = (case start override of Some t' \<Rightarrow> t' | None \<Rightarrow> c)"
  show "startMs (mkOcc defaultMin ev t (Some override)) = t"
    by (simp add: mkOcc_times)
  show "endMs (mkOcc defaultMin ev t (Some override)) =
               (case endd override of
                  Some en \<Rightarrow> if en > t then en else t + defaultMin * 60000
                | None \<Rightarrow> t + defaultMin * 60000)"
    unfolding t mkOcc_times by (rule calcEndMs_override_rule)
next
  fix c :: int and overrideL :: nodeIcalEvent and t
  assume t: "t = (case start overrideL of Some t' \<Rightarrow> t' | None \<Rightarrow> c)"
  show "calcEndMs_indexMjs defaultMin evL t (Some overrideL) =
               (case endd overrideL of
                  Some en \<Rightarrow>
                    if en > t then en
                    else t + (case duration overrideL of
                                Some n \<Rightarrow> if n > 0 then n else defaultMin * 60000
                              | None \<Rightarrow> defaultMin * 60000)
                | None \<Rightarrow>
                    t + (case duration overrideL of
                           Some n \<Rightarrow> if n > 0 then n else defaultMin * 60000
                         | None \<Rightarrow> defaultMin * 60000))"
    unfolding t by (rule calcEndMs_indexMjs_override_rule)
next
  fix windowStartMs windowEndMs overridesByUid result x
  assume run: "expandOccurrencesInWindow defaultMin ev windowStartMs windowEndMs overridesByUid
               = Some result"
    and mem: "x \<in> set result"
  let ?ovs = "map_of overridesByUid (evUid ev)"
  define built where "built y \<longleftrightarrow>
      (\<exists>c. y = mkOcc defaultMin ev c None)
    \<or> (\<exists>m recIdMs override.
          ?ovs = Some m \<and> (recIdMs, override) \<in> set m \<and>
          y = mkOcc defaultMin ev
                 (case start override of Some t \<Rightarrow> t | None \<Rightarrow> recIdMs) (Some override))
    \<or> (\<exists>m recIdMs override used.
          ?ovs = Some m \<and> (recIdMs, override) \<in> set m \<and>
          standaloneOcc defaultMin ev windowStartMs windowEndMs used
            (recIdMs, override) = Some y)" for y
  have plain: "built (mkOcc defaultMin ev t None)" for t
    unfolding built_def by blast
  have new: "built (mkOcc defaultMin ev
                    (case Option.bind (overrideAt ?ovs t) start of Some s \<Rightarrow> s | None \<Rightarrow> t)
                    (overrideAt ?ovs t))" for t
  proof (cases "overrideAt ?ovs t")
    case None
    with plain [of t] show ?thesis by simp
  next
    case (Some ov)
    then obtain m where m: "?ovs = Some m" "map_of m t = Some ov"
      by (auto simp: overrideAt_def split: option.splits)
    then have "(t, ov) \<in> set m"
      by (auto dest: map_of_SomeD)
    with m Some show ?thesis
      unfolding built_def
      by (intro disjI2 disjI1 exI [of _ m] exI [of _ t] exI [of _ ov]) simp
  qed
  have step: "\<forall>y\<in>set (loop_occs st'). built y"
    if "\<forall>y\<in>set (loop_occs st). built y"
      and "loopBody defaultMin ev windowStartMs windowEndMs ?ovs t st = Continue st'"
    for t st st'
  proof -
    from that(2) have "st' = st \<or>
        st' = processCandidate defaultMin ev windowStartMs windowEndMs ?ovs t st"
      by (auto simp: loopBody_def split: if_splits)
    then show ?thesis
      using that(1) processCandidate_occs [of defaultMin ev windowStartMs windowEndMs ?ovs t st]
        new [of t]
      by auto
  qed
  have "built x"
  proof (cases "datetype ev = DateOnly")
    case True
    with run mem show ?thesis
      by (simp add: expandOccurrencesInWindow_def)
  next
    case dt: False
    show ?thesis
    proof (cases "rrule ev")
      case False
      with dt assms(1) run mem have "x = mkOcc defaultMin ev s None"
        by (auto simp: expandOccurrencesInWindow_def nonRecurring_def Let_def split: if_splits)
      with plain [of s] show ?thesis by simp
    next
      case True
      with dt assms(1) run obtain st where
        loop: "iterLoop (loopBody defaultMin ev windowStartMs windowEndMs ?ovs)
                 (component ev) 0 \<lparr> loop_occs = [], usedOverrides = {} \<rparr> = Some st"
        and res: "result = loop_occs st @
           (case ?ovs of None \<Rightarrow> []
            | Some m \<Rightarrow> List.map_filter
                (standaloneOcc defaultMin ev windowStartMs windowEndMs (usedOverrides st)) m)"
        by (auto simp: expandOccurrencesInWindow_def Let_def split: option.splits)
      have inv: "\<forall>y\<in>set (loop_occs st). built y"
        by (rule iterLoop_invariant [OF loop, where I = "\<lambda>st. \<forall>y\<in>set (loop_occs st). built y"])
          (simp, rule step)
      show ?thesis
      proof (cases "x \<in> set (loop_occs st)")
        case True
        with inv show ?thesis by blast
      next
        case False
        with res mem obtain m where m: "?ovs = Some m"
          and "x \<in> set (List.map_filter
                (standaloneOcc defaultMin ev windowStartMs windowEndMs (usedOverrides st)) m)"
          by (auto split: option.splits)
        then obtain entry where e: "entry \<in> set m"
          "standaloneOcc defaultMin ev windowStartMs windowEndMs (usedOverrides st) entry = Some x"
          by (auto simp: List.map_filter_def)
        obtain k ov where kov: "entry = (k, ov)"
          by (cases entry)
        with m e show ?thesis
          unfolding built_def
          by (intro disjI2 exI [of _ m] exI [of _ k] exI [of _ ov]) blast
      qed
    qed
  qed
  then show "(\<exists>c. x = mkOcc defaultMin ev c None)
             \<or> (\<exists>m recIdMs override.
                   map_of overridesByUid (evUid ev) = Some m \<and> (recIdMs, override) \<in> set m \<and>
                   x = mkOcc defaultMin ev
                         (case start override of Some t \<Rightarrow> t | None \<Rightarrow> recIdMs)
                         (Some override))
             \<or> (\<exists>m recIdMs override used.
                   map_of overridesByUid (evUid ev) = Some m \<and> (recIdMs, override) \<in> set m \<and>
                   standaloneOcc defaultMin ev windowStartMs windowEndMs used
                     (recIdMs, override) = Some x)"
    unfolding built_def .
qed


text \<open>
  The master 2025-11-20 11:00--11:15 in the window of 2026-02-09: without an override the
  occurrence is 11:00 to 11:15 on that day; with the override that carries its own end,
  14:00 to 14:45; for the event object with a numeric duration of 30 minutes, 14:30.
\<close>

theorem recurrence_duration_law_witness:
  "expandOccurrencesInWindow 60 sync feb9 feb10 [] = Some [mkOcc 60 sync 1770634800000 None]
   \<and> endMs (mkOcc 60 sync 1770634800000 None) = 1770635700000
   \<and> endMs (mkOcc 60 sync 1770634800000 None) \<noteq> 1763637300000
   \<and> calcEndMs_indexMjs 60 syncNodeIcal 1770634800000 None = 1770635700000
   \<and> expandOccurrencesInWindow 60 sync feb9 feb10 [(''sync-1'', [(1770634800000, movedWithEnd)])]
       = Some [mkOcc 60 sync 1770645600000 (Some movedWithEnd)]
   \<and> endMs (mkOcc 60 sync 1770645600000 (Some movedWithEnd)) = 1770648300000
   \<and> calcEndMs_indexMjs 60 syncNodeIcal 1770645600000 (Some movedNodeIcal) = 1770647400000"
proof -
  let ?c = "1770634800000 :: int"
  have s: "start sync = Some 1763636400000" and e: "endd sync = Some 1763637300000"
    by (simp_all add: sync_def)
  have sL: "start syncNodeIcal = Some 1763636400000"
    and eL: "endd syncNodeIcal = Some 1763637300000"
    by (simp_all add: syncNodeIcal_def)
  have pos: "(0::int) < 1763637300000 - 1763636400000"
    and week: "(1763637300000::int) - 1763636400000 < 7 * 24 * 60 * 60 * 1000"
    by simp_all
  note law = recurrence_duration_law [of sync _ _ syncNodeIcal 60, OF s e sL eL pos week]
  note plain = law [THEN conjunct1, THEN spec, of ?c]
  have t: "(1770645600000 :: int) = (case start movedWithEnd of Some t' \<Rightarrow> t' | None \<Rightarrow> ?c)"
    by (simp add: movedWithEnd_def)
  note moved = law [THEN conjunct2, THEN conjunct1, THEN spec, THEN spec, THEN spec, THEN mp, OF t]
  have tL: "(1770645600000 :: int) = (case start movedNodeIcal of Some t' \<Rightarrow> t' | None \<Rightarrow> ?c)"
    by (simp add: movedNodeIcal_def)
  note movedL = law [THEN conjunct2, THEN conjunct2, THEN conjunct1, THEN spec, THEN spec,
      THEN spec, THEN mp, OF tL]
  have run1: "expandOccurrencesInWindow 60 sync feb9 feb10 []
      = Some [mkOcc 60 sync 1770634800000 None]"
    by (simp add: expand_eval sync_def feb9_def feb10_def)
  have run2: "expandOccurrencesInWindow 60 sync feb9 feb10
        [(''sync-1'', [(1770634800000, movedWithEnd)])]
       = Some [mkOcc 60 sync 1770645600000 (Some movedWithEnd)]"
    by (simp add: expand_eval sync_def movedWithEnd_def feb9_def feb10_def)
  have mem: "mkOcc 60 sync 1770634800000 None \<in> set [mkOcc 60 sync 1770634800000 None]"
    by simp
  note kinds = law [THEN conjunct2, THEN conjunct2, THEN conjunct2, THEN spec, THEN spec,
      THEN spec, THEN spec, THEN spec, THEN mp, OF run1, THEN mp, OF mem]
  have k: "\<exists>c. mkOcc 60 sync 1770634800000 None = mkOcc 60 sync c None"
    using kinds by simp
  have a: "endMs (mkOcc 60 sync ?c None) = 1770635700000"
    using plain by simp
  have b: "endMs (mkOcc 60 sync ?c None) \<noteq> 1763637300000"
    using plain by simp
  have c: "calcEndMs_indexMjs 60 syncNodeIcal ?c None = 1770635700000"
    using plain by simp
  have d: "endMs (mkOcc 60 sync 1770645600000 (Some movedWithEnd)) = 1770648300000"
    using moved by (simp add: movedWithEnd_def)
  have dL: "calcEndMs_indexMjs 60 syncNodeIcal 1770645600000 (Some movedNodeIcal) = 1770647400000"
    using movedL by (simp add: movedNodeIcal_def)
  from run1 run2 a b c d dL show ?thesis
    by simp
qed

text \<open>
  The same master with an override of the instance of 2026-02-09 that has DTSTART 14:00
  and no DTEND, so that its end is reported equal to its start: the occurrence lasts the
  default 60 minutes, not the master's 15.
\<close>

theorem override_without_dtend_counterexample:
  "map_option durations
     (expandOccurrencesInWindow 60 sync feb9 feb10 [(''sync-1'', [(1770634800000, movedNoDtend)])])
     = Some [3600000]
   \<and> start movedNoDtend = Some 1770645600000
   \<and> endd movedNoDtend = Some 1770645600000
   \<and> calcDurationMsFromEvent 60 sync = 900000"
  by (simp add: expand_eval sync_def movedNoDtend_def feb9_def feb10_def durations_def)

text \<open>
  Claim C9. A candidate instant that is an exception instant leaves the state of the loop
  as it is, whatever the override map holds for that instant: no occurrence is pushed and
  no override is marked as used. Below \<open>windowEndMs\<close> the loop goes on with the next
  candidate; at or after \<open>windowEndMs\<close> the loop ends, as it does for any candidate there.
\<close>

theorem excluded_candidate_dropped:
  assumes "isExcluded occMs (exdate ev)"
  shows "(loopBody defaultMin ev windowStartMs windowEndMs uidOverrides occMs st = Break
          \<or> loopBody defaultMin ev windowStartMs windowEndMs uidOverrides occMs st = Continue st)
       \<and> (occMs < windowEndMs \<longrightarrow>
            loopBody defaultMin ev windowStartMs windowEndMs uidOverrides occMs st = Continue st
            \<and> (\<forall>it n. it n = Some occMs \<longrightarrow>
                 iterLoop (loopBody defaultMin ev windowStartMs windowEndMs uidOverrides) it n st
                   = iterLoop (loopBody defaultMin ev windowStartMs windowEndMs uidOverrides)
                       it (Suc n) st))
       \<and> (occMs \<ge> windowEndMs \<longrightarrow>
            (\<forall>it n. it n = Some occMs \<longrightarrow>
               iterLoop (loopBody defaultMin ev windowStartMs windowEndMs uidOverrides) it n st
                 = Some st))"
proof (intro conjI impI allI)
  show "loopBody defaultMin ev windowStartMs windowEndMs uidOverrides occMs st = Break
          \<or> loopBody defaultMin ev windowStartMs windowEndMs uidOverrides occMs st = Continue st"
    using assms by (simp add: loopBody_def processCandidate_def)
next
  assume "occMs < windowEndMs"
  with assms show step:
    "loopBody defaultMin ev windowStartMs windowEndMs uidOverrides occMs st = Continue st"
    by (simp add: loopBody_def processCandidate_def)
  fix it :: "nat \<Rightarrow> int option" and n
  assume "it n = Some occMs"
  with step show
    "iterLoop (loopBody defaultMin ev windowStartMs windowEndMs uidOverrides) it n st
       = iterLoop (loopBody defaultMin ev windowStartMs windowEndMs uidOverrides) it (Suc n) st"
    by (simp add: iterLoop_Some)
next
  fix it :: "nat \<Rightarrow> int option" and n
  assume "occMs \<ge> windowEndMs" and "it n = Some occMs"
  then show "iterLoop (loopBody defaultMin ev windowStartMs windowEndMs uidOverrides) it n st
       = Some st"
    by (simp add: iterLoop_Some loopBody_def)
qed

text \<open>
  The instance of 2026-02-09 11:00 is excluded and has an override: the loop returns no
  occurrence and has used no override.
\<close>

theorem excluded_candidate_dropped_witness:
  "overrideAt (Some [(1770634800000, movedNoEnd)]) 1770634800000 = Some movedNoEnd
   \<and> loopBody 60 syncExcluded feb9 feb10 (Some [(1770634800000, movedNoEnd)]) 1770634800000
        \<lparr> loop_occs = [], usedOverrides = {} \<rparr>
      = Continue \<lparr> loop_occs = [], usedOverrides = {} \<rparr>
   \<and> iterLoop (loopBody 60 syncExcluded feb9 feb10 (Some [(1770634800000, movedNoEnd)]))
        (component syncExcluded) 0 \<lparr> loop_occs = [], usedOverrides = {} \<rparr>
      = Some \<lparr> loop_occs = [], usedOverrides = {} \<rparr>"
proof -
  have ex: "isExcluded 1770634800000 (exdate syncExcluded)"
    by (simp add: syncExcluded_def isExcluded_def)
  have lt: "(1770634800000::int) < feb10"
    by (simp add: feb10_def)
  from excluded_candidate_dropped [OF ex, THEN conjunct2, THEN conjunct1, THEN mp, OF lt]
  have "loopBody 60 syncExcluded feb9 feb10 (Some [(1770634800000, movedNoEnd)]) 1770634800000
        \<lparr> loop_occs = [], usedOverrides = {} \<rparr>
      = Continue \<lparr> loop_occs = [], usedOverrides = {} \<rparr>"
    by (rule conjunct1)
  moreover have "iterLoop (loopBody 60 syncExcluded feb9 feb10 (Some [(1770634800000, movedNoEnd)]))
        (component syncExcluded) 0 \<lparr> loop_occs = [], usedOverrides = {} \<rparr>
      = Some \<lparr> loop_occs = [], usedOverrides = {} \<rparr>"
    by (simp add: expand_eval syncExcluded_def sync_def movedNoEnd_def feb9_def feb10_def)
  ultimately show ?thesis
    by (simp add: overrideAt_def)
qed

lemma skipped_candidate_idle:
  assumes "calcDurationMsFromEvent d ev \<le> 24 * 60 * 60 * 1000"
    and "t + 24 * 60 * 60 * 1000 < ws"
    and "overrideAt ovs t = None"
  shows "processCandidate d ev ws we ovs t st = st"
  using assms by (simp add: processCandidate_def calcEndMs_def Let_def)

text \<open>
  When the duration derived for the master is at most 24 hours and
  the override map holds no override for a candidate instant that the smart skip
  discards, the expansion with the smart skip and the exhaustive expansion return the
  same list (or both do not return).
\<close>

theorem smart_skip_equals_exhaustive:
  assumes "calcDurationMsFromEvent defaultMin ev \<le> 24 * 60 * 60 * 1000"
    and "\<forall>n t. component ev n = Some t \<and> t + 24 * 60 * 60 * 1000 < windowStartMs \<longrightarrow>
           overrideAt (map_of overridesByUid (evUid ev)) t = None"
  shows "expandOccurrencesInWindow defaultMin ev windowStartMs windowEndMs overridesByUid
       = expandExhaustive defaultMin ev windowStartMs windowEndMs overridesByUid"
proof -
  let ?ovs = "map_of overridesByUid (evUid ev)"
  have "loopBody defaultMin ev windowStartMs windowEndMs ?ovs t s
      = loopBodyExhaustive defaultMin ev windowStartMs windowEndMs ?ovs t s"
    if "component ev m = Some t" for m t s
  proof (cases "t + 24 * 60 * 60 * 1000 < windowStartMs")
    case True
    with that assms(2) have "overrideAt ?ovs t = None"
      by blast
    with assms(1) True
    have "processCandidate defaultMin ev windowStartMs windowEndMs ?ovs t s = s"
      by (intro skipped_candidate_idle)
    with True show ?thesis
      by (simp add: loopBody_def loopBodyExhaustive_def)
  next
    case False
    then show ?thesis
      by (simp add: loopBody_def loopBodyExhaustive_def)
  qed
  then have "iterLoop (loopBody defaultMin ev windowStartMs windowEndMs ?ovs) (component ev) 0 st
      = iterLoop (loopBodyExhaustive defaultMin ev windowStartMs windowEndMs ?ovs) (component ev) 0 st"
    for st
    by (rule iterLoop_cong)
  then show ?thesis
    by (simp add: expandOccurrencesInWindow_def expandExhaustive_def Let_def
        cong: if_cong option.case_cong)
qed

lemmas exhaustive_eval = expandExhaustive_def loopBodyExhaustive_def

text \<open>The master \<open>sync\<close> with the moved override of 2026-02-09.\<close>

theorem smart_skip_equals_exhaustive_witness:
  "expandOccurrencesInWindow 60 sync feb9 feb10 [(''sync-1'', [(1770634800000, movedNoEnd)])]
     = expandExhaustive 60 sync feb9 feb10 [(''sync-1'', [(1770634800000, movedNoEnd)])]
   \<and> map_option durations
        (expandExhaustive 60 sync feb9 feb10 [(''sync-1'', [(1770634800000, movedNoEnd)])])
       = Some [3600000]"
proof -
  have d: "calcDurationMsFromEvent 60 sync \<le> 24 * 60 * 60 * 1000"
    by (simp add: calcDurationMsFromEvent_def sync_def)
  have o: "\<forall>n t. component sync n = Some t \<and> t + 24 * 60 * 60 * 1000 < feb9 \<longrightarrow>
           overrideAt (map_of [(''sync-1'', [(1770634800000, movedNoEnd)])] (evUid sync)) t = None"
    by (auto simp: sync_def fromList_def overrideAt_def evUid_def feb9_def nth_Cons'
        split: if_splits)
  from smart_skip_equals_exhaustive [OF d o, of feb10]
  have "expandOccurrencesInWindow 60 sync feb9 feb10 [(''sync-1'', [(1770634800000, movedNoEnd)])]
     = expandExhaustive 60 sync feb9 feb10 [(''sync-1'', [(1770634800000, movedNoEnd)])]" .
  moreover have "map_option durations
        (expandExhaustive 60 sync feb9 feb10 [(''sync-1'', [(1770634800000, movedNoEnd)])])
       = Some [3600000]"
    by (simp add: exhaustive_eval expand_eval sync_def movedNoEnd_def feb9_def feb10_def
        durations_def)
  ultimately show ?thesis
    by simp
qed

text \<open>
  Claim C6. The expansion with the smart skip returns the occurrences that an exhaustive
  scan of the candidates returns. For a weekly master that lasts 48 hours and whose
  occurrence began 37 hours before the window and ends in it, it does not: the loop
  discards the candidate, which starts more than 24 hours before the window; the same
  loop without the skip reports the occurrence, and so does the branch for an event
  without a rule on the same event. \<open>calcDurationMsFromEvent\<close> accepts the duration, as it
  accepts any duration below one week.
\<close>

theorem smart_skip_drops_event_under_way:
  "expandOccurrencesInWindow 60 retreat feb9 feb10 [] = Some []
   \<and> expandExhaustive 60 retreat feb9 feb10 [] =
       Some [\<lparr> occ_uid = Some ''retreat-3'', title = ''Retreat'', occ_location = None,
                occ_organizer = None, startMs = 1770462000000, endMs = 1770634800000,
                occ_status = None \<rparr>]
   \<and> expandOccurrencesInWindow 60 retreatOnce feb9 feb10 [] =
       Some [\<lparr> occ_uid = Some ''retreat-3'', title = ''Retreat'', occ_location = None,
                occ_organizer = None, startMs = 1770462000000, endMs = 1770634800000,
                occ_status = None \<rparr>]
   \<and> calcDurationMsFromEvent 60 retreat = 48 * 60 * 60 * 1000
   \<and> feb9 < (1770634800000 :: int)"
  by (simp add: exhaustive_eval expand_eval retreat_def retreatOnce_def feb9_def feb10_def)

lemma calcDuration_positive:
  "0 < defaultMin \<Longrightarrow> 0 < calcDurationMsFromEvent defaultMin e"
  by (simp add: calcDurationMsFromEvent_def Let_def split: option.splits)

lemma calcEndMs_after_start:
  "0 < defaultMin \<Longrightarrow> t < calcEndMs defaultMin ev t ov"
  using calcDuration_positive [of defaultMin ev]
  by (auto simp: calcEndMs_def split: option.splits
      dest: calcDuration_positive [where e = "the ov"])

lemma mkOcc_end_after_start:
  "0 < defaultMin \<Longrightarrow> startMs (mkOcc defaultMin ev t ov) < endMs (mkOcc defaultMin ev t ov)"
  by (simp add: mkOcc_times calcEndMs_after_start)

text \<open>
  Claim C4. Every occurrence in the output has \<open>endMs > startMs\<close>, those built from
  orphaned or unmatched overrides included. The occurrences that \<open>mkOcc\<close> builds satisfy
  this (\<open>mkOcc_end_after_start\<close>), but the two passes over unmatched and orphaned overrides
  copy the end of the override unchecked. For a master with an override that the rule
  never reaches and whose DTSTART and DTEND are both 14:00, and for the same override
  without any master, the list that the handler sorts holds an occurrence with
  \<open>endMs = startMs\<close>, and the response carries it as \<open>nextNonOverlapping\<close>.
\<close>

theorem zero_length_override_emitted:
  "collectOccurrences 60 [sync, zeroLength] feb9 feb10 1770632400000 =
     Some [\<lparr> occ_uid = Some ''sync-1'', title = ''Sync'', occ_location = None,
              occ_organizer = None, startMs = 1770634800000, endMs = 1770635700000,
              occ_status = None \<rparr>,
           \<lparr> occ_uid = Some ''sync-1'', title = ''Extra'', occ_location = None,
              occ_organizer = None, startMs = 1770645600000, endMs = 1770645600000,
              occ_status = None \<rparr>]
   \<and> nextNonOverlapping (snd (respond
        [\<lparr> occ_uid = Some ''sync-1'', title = ''Sync'', occ_location = None,
            occ_organizer = None, startMs = 1770634800000, endMs = 1770635700000,
            occ_status = None \<rparr>,
         \<lparr> occ_uid = Some ''sync-1'', title = ''Extra'', occ_location = None,
            occ_organizer = None, startMs = 1770645600000, endMs = 1770645600000,
            occ_status = None \<rparr>] 1770632400000)) =
     Some \<lparr> dto_uid = Some ''sync-1'', dto_title = ''Extra'', dto_location = None,
            dto_organizer = None, dto_start = 1770645600000, dto_end = 1770645600000 \<rparr>
   \<and> collectOccurrences 60 [zeroLengthOrphan] feb9 feb10 1770632400000 =
     Some [\<lparr> occ_uid = Some ''gone-2'', title = ''Extra'', occ_location = None,
              occ_organizer = None, startMs = 1770645600000, endMs = 1770645600000,
              occ_status = None \<rparr>]"
proof -
  have sep: "separateMasterAndOverrides [sync, zeroLength] =
      ([sync], [(''sync-1'', [(1770638400000, zeroLength)])], {''sync-1''})"
    by (simp add: separateMasterAndOverrides_def separateStep_def masterUids_def truthy_def
        evUid_def List.map_filter_def sync_def zeroLength_def)
  have ex: "expandOccurrencesInWindow 60 sync 1770595200000 1770681600000
        [(''sync-1'', [(1770638400000, zeroLength)])] =
     Some [\<lparr> occ_uid = Some ''sync-1'', title = ''Sync'', occ_location = None,
              occ_organizer = None, startMs = 1770634800000, endMs = 1770635700000,
              occ_status = None \<rparr>,
           \<lparr> occ_uid = Some ''sync-1'', title = ''Extra'', occ_location = None,
              occ_organizer = None, startMs = 1770645600000, endMs = 1770645600000,
              occ_status = None \<rparr>]"
    by (simp add: expand_eval sync_def zeroLength_def)
  have orph: "orphanedOverrides 60 1770595200000 1770681600000 {''sync-1''}
        [(''sync-1'', [(1770638400000, zeroLength)])] = []"
    by (simp add: orphanedOverrides_def)
  have a: "collectOccurrences 60 [sync, zeroLength] feb9 feb10 1770632400000 =
     Some [\<lparr> occ_uid = Some ''sync-1'', title = ''Sync'', occ_location = None,
              occ_organizer = None, startMs = 1770634800000, endMs = 1770635700000,
              occ_status = None \<rparr>,
           \<lparr> occ_uid = Some ''sync-1'', title = ''Extra'', occ_location = None,
              occ_organizer = None, startMs = 1770645600000, endMs = 1770645600000,
              occ_status = None \<rparr>]"
    unfolding feb9_def feb10_def
    by (simp add: collectOccurrences_def sep ex orph sort_key_def)
  have b: "nextNonOverlapping (snd (respond
        [\<lparr> occ_uid = Some ''sync-1'', title = ''Sync'', occ_location = None,
            occ_organizer = None, startMs = 1770634800000, endMs = 1770635700000,
            occ_status = None \<rparr>,
         \<lparr> occ_uid = Some ''sync-1'', title = ''Extra'', occ_location = None,
            occ_organizer = None, startMs = 1770645600000, endMs = 1770645600000,
            occ_status = None \<rparr>] 1770632400000)) =
     Some \<lparr> dto_uid = Some ''sync-1'', dto_title = ''Extra'', dto_location = None,
            dto_organizer = None, dto_start = 1770645600000, dto_end = 1770645600000 \<rparr>"
    by (simp add: respond_def computeNextTriple_def searchFromMs_def containsNow_def
        toDtoWithTz_def wholeSeconds_def Let_def)
  have sep2: "separateMasterAndOverrides [zeroLengthOrphan] =
      ([], [(''gone-2'', [(1770638400000, zeroLengthOrphan)])], {})"
    by (simp add: separateMasterAndOverrides_def separateStep_def masterUids_def truthy_def
        evUid_def List.map_filter_def zeroLengthOrphan_def zeroLength_def)
  have orph2: "orphanedOverrides 60 1770595200000 1770681600000 {}
        [(''gone-2'', [(1770638400000, zeroLengthOrphan)])] =
     [\<lparr> occ_uid = Some ''gone-2'', title = ''Extra'', occ_location = None,
         occ_organizer = None, startMs = 1770645600000, endMs = 1770645600000,
         occ_status = None \<rparr>]"
    by (simp add: orphanedOverrides_def orphanOcc_def List.map_filter_def jsOr_def truthy_def
        zeroLengthOrphan_def zeroLength_def)
  have c: "collectOccurrences 60 [zeroLengthOrphan] feb9 feb10 1770632400000 =
     Some [\<lparr> occ_uid = Some ''gone-2'', title = ''Extra'', occ_location = None,
              occ_organizer = None, startMs = 1770645600000, endMs = 1770645600000,
              occ_status = None \<rparr>]"
    unfolding feb9_def feb10_def
    by (simp add: collectOccurrences_def sep2 orph2 sort_key_def)
  from a b c show ?thesis
    by (intro conjI)
qed

section \<open>Properties of the WindowCalculator\<close>

text \<open>
  \<open>todayWindow\<close> of \<open>src/unnamed/part_000\<close>. The end of the window is the round trip of
  the next UTC day through the zone,
  not the start plus 24 hours: the length of the window is 24 hours less the change of the
  zone's offset between the two probes, and it is 24 hours exactly when the two offsets
  are equal.
\<close>

theorem window_end_computed_independently:
  "win_endMs (todayWindow wallClock nowMs)
     = shiftUtcToZonedMidnightMs wallClock (approxUtcMidnight wallClock nowMs + dayMs)
   \<and> win_endMs (todayWindow wallClock nowMs) - win_startMs (todayWindow wallClock nowMs)
     = dayMs - ((wholeSeconds (wallClock (approxUtcMidnight wallClock nowMs + dayMs))
                   - (approxUtcMidnight wallClock nowMs + dayMs))
                - (wholeSeconds (wallClock (approxUtcMidnight wallClock nowMs))
                   - approxUtcMidnight wallClock nowMs))
   \<and> (win_endMs (todayWindow wallClock nowMs) = win_startMs (todayWindow wallClock nowMs) + dayMs
        \<longleftrightarrow> wholeSeconds (wallClock (approxUtcMidnight wallClock nowMs + dayMs))
                - (approxUtcMidnight wallClock nowMs + dayMs)
            = wholeSeconds (wallClock (approxUtcMidnight wallClock nowMs))
                - approxUtcMidnight wallClock nowMs)"
  by (auto simp: todayWindow_def shiftUtcToZonedMidnightMs_def Let_def)

text \<open>On 2026-03-29 the clocks of the zone go forward: the window lasts 23 hours.\<close>

theorem window_end_computed_independently_witness:
  "todayWindow nicosia 1774778400000 = \<lparr> win_startMs = 1774735200000, win_endMs = 1774818000000 \<rparr>
   \<and> win_endMs (todayWindow nicosia 1774778400000) - win_startMs (todayWindow nicosia 1774778400000)
       = 23 * 60 * 60 * 1000"
proof -
  have a: "approxUtcMidnight nicosia 1774778400000 = 1774742400000"
    by (simp add: approxUtcMidnight_def nicosia_def dayMs_def)
  have w: "todayWindow nicosia 1774778400000
             = \<lparr> win_startMs = 1774735200000, win_endMs = 1774818000000 \<rparr>"
    by (simp add: todayWindow_def a shiftUtcToZonedMidnightMs_def wholeSeconds_def nicosia_def
        dayMs_def Let_def)
  from window_end_computed_independently [of nicosia 1774778400000, THEN conjunct2, THEN conjunct1]
  have "win_endMs (todayWindow nicosia 1774778400000) - win_startMs (todayWindow nicosia 1774778400000)
       = 23 * 60 * 60 * 1000"
    by (simp add: a wholeSeconds_def nicosia_def dayMs_def)
  with w show ?thesis
    by simp
qed

text \<open>
  Where the clocks go forward at local midnight, the round trip of
  \<open>src/unnamed/part_000\<close> reads the offset two hours after the change: on 2026-04-23 its
  window ends at 23:00 local time.
\<close>

lemma todayWindow_cairo:
  "todayWindow cairo 1776938400000
     = \<lparr> win_startMs = 1776895200000, win_endMs = 1776978000000 \<rparr>
   \<and> cairo 1776895200000 = 1776902400000
   \<and> cairo 1776978000000 = 1776985200000"
proof -
  have a: "approxUtcMidnight cairo 1776938400000 = 1776902400000"
    by (simp add: approxUtcMidnight_def cairo_def dayMs_def)
  show ?thesis
    by (simp add: todayWindow_def a shiftUtcToZonedMidnightMs_def wholeSeconds_def cairo_def
        dayMs_def Let_def)
qed

lemma todayWindow_indexMjs_length:
  "win_endMs (todayWindow_indexMjs wallClock nowMs)
     = win_startMs (todayWindow_indexMjs wallClock nowMs) + 24 * 60 * 60 * 1000"
  by (simp add: todayWindow_indexMjs_def Let_def)

text \<open>
  Claim C7. The end of the window is computed on its own, from the day after the start,
  and not as the start plus 24 hours. \<open>todayWindow\<close> of \<open>src/unnamed/part_000\<close> computes it
  so (\<open>window_end_computed_independently\<close>). \<open>todayWindow\<close> of \<open>src/index.mjs\<close>, and of the
  revision in \<open>src/local-run.mjs\<close>, adds 24 hours to the start
  (\<open>todayWindow_indexMjs_length\<close>). On 2026-03-29, when the clocks of the zone go forward,
  its window begins at local midnight and ends at 01:00 local time on 30 March, an hour
  into the next day; the window of \<open>src/unnamed/part_000\<close> ends at local midnight.
\<close>

theorem window_end_is_start_plus_24h_indexMjs:
  "todayWindow_indexMjs nicosia 1774778400000
     = \<lparr> win_startMs = 1774735200000, win_endMs = 1774821600000 \<rparr>
   \<and> nicosia 1774735200000 = 1774742400000
   \<and> nicosia 1774821600000 = 1774832400000
   \<and> todayWindow nicosia 1774778400000
     = \<lparr> win_startMs = 1774735200000, win_endMs = 1774818000000 \<rparr>
   \<and> nicosia 1774818000000 = 1774828800000"
proof -
  have a: "approxUtcMidnight nicosia 1774778400000 = 1774742400000"
    by (simp add: approxUtcMidnight_def nicosia_def dayMs_def)
  show ?thesis
    by (simp add: todayWindow_indexMjs_def todayWindow_def a shiftUtcToZonedMidnightMs_def
        wholeSeconds_def nicosia_def dayMs_def Let_def)
qed

section \<open>Properties of the TimeZoneNormalizer\<close>

lemma refMatch_text:
  assumes "refMatch s = Some winTz"
  shows "s = ''TZID='' @ winTz @ drop (5 + length winTz) s"
proof -
  from assms have t: "take 5 s = ''TZID=''" and w: "winTz = takeWhile isRefChar (drop 5 s)"
    by (auto simp only: refMatch_def Let_def split: if_splits)
  have "drop (5 + length winTz) s = dropWhile isRefChar (drop 5 s)"
    unfolding w by (metis add.commute drop_drop dropWhile_eq_drop)
  then have "winTz @ drop (5 + length winTz) s = drop 5 s"
    unfolding w by (simp only: takeWhile_dropWhile_id)
  with t show ?thesis
    by (metis append_take_drop_id)
qed

lemma replaceAllRefs_pieces:
  "replaceAllRefs callback s =
     concat (map (\<lambda>p. case p of Inl c \<Rightarrow> [c] | Inr winTz \<Rightarrow> callback (''TZID='' @ winTz) winTz)
               (refPieces s))"
proof (induction callback s rule: replaceAllRefs.induct)
  case (1 callback)
  show ?case by simp
next
  case (2 callback c cs)
  show ?case
  proof (cases "refMatch (c # cs)")
    case None
    with 2 show ?thesis by simp
  next
    case (Some winTz)
    with 2 show ?thesis by simp
  qed
qed

lemma pieceText_simps:
  "pieceText (Inl c) = [c]" "pieceText (Inr winTz) = ''TZID='' @ winTz"
  by (simp_all add: pieceText_def)

lemma pieces_text: "concat (map pieceText (refPieces s)) = s"
proof (induction s rule: refPieces.induct)
  case 1
  show ?case by simp
next
  case (2 c cs)
  show ?case
  proof (cases "refMatch (c # cs)")
    case None
    with 2 show ?thesis
      by (simp add: pieceText_simps)
  next
    case (Some winTz)
    with 2 have "concat (map pieceText (refPieces (c # cs)))
        = ''TZID='' @ winTz @ drop (5 + length winTz) (c # cs)"
      by (simp add: pieceText_simps)
    also have "\<dots> = c # cs"
      using refMatch_text [OF Some] by (rule sym)
    finally show ?thesis .
  qed
qed

text \<open>
  The names that \<open>vtzScan\<close> collects are the TZIDs of the VTIMEZONE blocks: for the first
  block of a text, whose TZID line ends at a line break \<open>c\<close> and which is closed by
  \<open>END:VTIMEZONE\<close>, the name on that line is collected.
\<close>

lemma findSub_found: "findSub pat (a @ pat @ b) \<noteq> None"
proof (induction a)
  case Nil
  show ?case
  proof (cases "pat @ b")
    case Nil
    then show ?thesis by simp
  next
    case (Cons y ys)
    have "take (length pat) (pat @ b) = pat"
      by simp
    with Cons show ?thesis
      by (simp del: take_Suc_Cons)
  qed
next
  case (Cons x a)
  then show ?case by auto
qed

lemma captureAt_line:
  assumes "tzid \<noteq> []" and "\<forall>ch\<in>set tzid. isLineChar ch" and "\<not> isLineChar c"
    and "findSub ''END:VTIMEZONE'' (c # rest) = Some q"
  shows "captureAt (tzid @ c # rest) = Some (tzid, length tzid + q + 13)"
proof -
  let ?s2 = "tzid @ c # rest"
  have run: "takeWhile isLineChar ?s2 = tzid"
    using assms(2,3) by (simp add: takeWhile_tail)
  from assms(1) have n: "[1 ..< Suc (length tzid)] = [1 ..< length tzid] @ [length tzid]"
    by (cases tzid) auto
  have d: "drop (length tzid) ?s2 = c # rest"
    by simp
  have "find (\<lambda>k. findSub ''END:VTIMEZONE'' (drop k ?s2) \<noteq> None)
          (rev [1 ..< Suc (length tzid)]) = Some (length tzid)"
    unfolding n using assms(4) by (simp only: rev_append rev.simps append_Nil find.simps d) simp
  then show ?thesis
    unfolding captureAt_def run Let_def using assms(4) d by simp
qed


lemma tzidSearch_step:
  assumes "take 5 (x # s) \<noteq> ''TZID:''"
  shows "tzidSearch (x # s) = map_option (\<lambda>(tzid, n). (tzid, Suc n)) (tzidSearch s)"
  using assms by (simp only: tzidSearch.simps if_False option.case)

lemma tzidSearch_gap:
  assumes "\<forall>i<length gap. take 5 (drop i (gap @ tail)) \<noteq> ''TZID:''"
    and "tzidSearch tail = Some (t, n)"
  shows "tzidSearch (gap @ tail) = Some (t, length gap + n)"
  using assms(1)
proof (induction gap)
  case Nil
  from assms(2) show ?case by simp
next
  case (Cons x gap)
  from Cons(2) have "take 5 (drop 0 ((x # gap) @ tail)) \<noteq> ''TZID:''"
    by blast
  then have head: "take 5 (x # (gap @ tail)) \<noteq> ''TZID:''"
    by (simp only: drop_0 append_Cons not_False_eq_True)
  have "\<forall>i<length gap. take 5 (drop i (gap @ tail)) \<noteq> ''TZID:''"
  proof (intro allI impI)
    fix i assume "i < length gap"
    then have "Suc i < length (x # gap)" by simp
    with Cons(2) have "take 5 (drop (Suc i) ((x # gap) @ tail)) \<noteq> ''TZID:''"
      by blast
    then show "take 5 (drop i (gap @ tail)) \<noteq> ''TZID:''"
      by (simp only: append_Cons drop_Suc_Cons not_False_eq_True)
  qed
  from Cons(1) [OF this] have ih: "tzidSearch (gap @ tail) = Some (t, length gap + n)" .
  have "tzidSearch ((x # gap) @ tail) = tzidSearch (x # (gap @ tail))"
    by (simp only: append_Cons)
  also have "\<dots> = map_option (\<lambda>(tzid, n). (tzid, Suc n)) (tzidSearch (gap @ tail))"
    using head by (rule tzidSearch_step)
  finally show ?case
    using ih by simp
qed

lemma vtzScan_block:
  assumes "tzidSearch s1 = Some (t, n)"
  shows "vtzScan (''BEGIN:VTIMEZONE'' @ s1) = t # vtzScan (drop n s1)"
proof -
  have "drop (15 + n) (''BEGIN:VTIMEZONE'' @ s1) = drop n (drop 15 (''BEGIN:VTIMEZONE'' @ s1))"
    by (simp only: drop_drop add.commute)
  also have "\<dots> = drop n s1"
    by simp
  finally have d: "drop (15 + n) (''BEGIN:VTIMEZONE'' @ s1) = drop n s1" .
  have "vtzScan (''BEGIN:VTIMEZONE'' @ s1)
      = t # vtzScan (drop (15 + n) (''BEGIN:VTIMEZONE'' @ s1))"
    using assms by simp
  with d show ?thesis
    by simp
qed

lemma vtzScan_step:
  assumes "take 15 (x # s) \<noteq> ''BEGIN:VTIMEZONE''"
  shows "vtzScan (x # s) = vtzScan s"
  using assms by (simp only: vtzScan.simps if_False option.case)

lemma vtzScan_skip:
  assumes "\<forall>i<length pre. take 15 (drop i (pre @ rest)) \<noteq> ''BEGIN:VTIMEZONE''"
  shows "vtzScan (pre @ rest) = vtzScan rest"
  using assms
proof (induction pre)
  case Nil
  show ?case by simp
next
  case (Cons x pre)
  from Cons(2) have "take 15 (drop 0 ((x # pre) @ rest)) \<noteq> ''BEGIN:VTIMEZONE''"
    by blast
  then have head: "take 15 (x # (pre @ rest)) \<noteq> ''BEGIN:VTIMEZONE''"
    by (simp only: drop_0 append_Cons not_False_eq_True)
  have "\<forall>i<length pre. take 15 (drop i (pre @ rest)) \<noteq> ''BEGIN:VTIMEZONE''"
  proof (intro allI impI)
    fix i assume "i < length pre"
    then have "Suc i < length (x # pre)" by simp
    with Cons(2) have "take 15 (drop (Suc i) ((x # pre) @ rest)) \<noteq> ''BEGIN:VTIMEZONE''"
      by blast
    then show "take 15 (drop i (pre @ rest)) \<noteq> ''BEGIN:VTIMEZONE''"
      by (simp only: append_Cons drop_Suc_Cons not_False_eq_True)
  qed
  from Cons(1) [OF this] have "vtzScan (pre @ rest) = vtzScan rest" .
  moreover have "vtzScan ((x # pre) @ rest) = vtzScan (x # (pre @ rest))"
    by (simp only: append_Cons)
  moreover have "vtzScan (x # (pre @ rest)) = vtzScan (pre @ rest)"
    using head by (rule vtzScan_step)
  ultimately show ?case by simp
qed

lemma first_block_is_declared:
  assumes "\<forall>i<length pre. take 15 (drop i (pre @ ''BEGIN:VTIMEZONE'' @ gap @ ''TZID:'' @ tzid @
               c # body @ ''END:VTIMEZONE'' @ post)) \<noteq> ''BEGIN:VTIMEZONE''"
    and "\<forall>i<length gap. take 5 (drop i (gap @ ''TZID:'' @ tzid @
               c # body @ ''END:VTIMEZONE'' @ post)) \<noteq> ''TZID:''"
    and "tzid \<noteq> []" and "\<forall>ch\<in>set tzid. isLineChar ch" and "\<not> isLineChar c"
  shows "tzid \<in> set (vtzScan (pre @ ''BEGIN:VTIMEZONE'' @ gap @ ''TZID:'' @ tzid @
               c # body @ ''END:VTIMEZONE'' @ post))"
proof -
  let ?rest = "body @ ''END:VTIMEZONE'' @ post"
  have "findSub ''END:VTIMEZONE'' ((c # body) @ ''END:VTIMEZONE'' @ post) \<noteq> None"
    by (rule findSub_found)
  then obtain q where q: "findSub ''END:VTIMEZONE'' (c # ?rest) = Some q"
    by auto
  from captureAt_line [OF assms(3,4,5) q]
  have cap: "captureAt (tzid @ c # ?rest) = Some (tzid, length tzid + q + 13)" .
  then have "tzidSearch (''TZID:'' @ tzid @ c # ?rest) = Some (tzid, 5 + (length tzid + q + 13))"
    by simp
  from tzidSearch_gap [OF assms(2) this]
  have "tzidSearch (gap @ ''TZID:'' @ tzid @ c # ?rest)
      = Some (tzid, length gap + (5 + (length tzid + q + 13)))" .
  from vtzScan_block [OF this]
  have "tzid \<in> set (vtzScan (''BEGIN:VTIMEZONE'' @ gap @ ''TZID:'' @ tzid @ c # ?rest))"
    by simp
  with vtzScan_skip [OF assms(1)] show ?thesis
    by simp
qed

text \<open>
  \<open>normalizeIcsTimezones\<close> of \<open>src/unnamed/part_000\<close>. The normalized text is the input with each reference \<open>TZID=winTz\<close> kept as it
  is when \<open>winTz\<close> is the TZID of a VTIMEZONE block of the text (a name that \<open>vtzScan\<close>
  collects), whatever the lookup table says, and passed through the lookup table
  otherwise. When every reference names such a block, the text is unchanged.
\<close>

theorem declared_zone_references_kept:
  "((\<forall>winTz. Inr winTz \<in> set (refPieces icsText) \<longrightarrow> winTz \<in> set (vtzScan icsText)) \<longrightarrow>
      normalizeIcsTimezones findIana icsText = icsText)
   \<and> normalizeIcsTimezones findIana icsText =
       concat (map (\<lambda>p. case p of
                          Inl c \<Rightarrow> [c]
                        | Inr winTz \<Rightarrow>
                            if winTz \<in> set (vtzScan icsText) then ''TZID='' @ winTz
                            else replaceTz {} findIana (''TZID='' @ winTz) winTz)
                 (refPieces icsText))
   \<and> icsText = concat (map pieceText (refPieces icsText))"
proof (intro conjI impI)
  show pos: "normalizeIcsTimezones findIana icsText =
       concat (map (\<lambda>p. case p of
                          Inl c \<Rightarrow> [c]
                        | Inr winTz \<Rightarrow>
                            if winTz \<in> set (vtzScan icsText) then ''TZID='' @ winTz
                            else replaceTz {} findIana (''TZID='' @ winTz) winTz)
                 (refPieces icsText))"
    unfolding normalizeIcsTimezones_def replaceAllRefs_pieces
    by (intro arg_cong [where f = concat] map_cong refl)
      (auto simp: replaceTz_def split: sum.splits)
  show "icsText = concat (map pieceText (refPieces icsText))"
    by (simp add: pieces_text)
  assume "\<forall>winTz. Inr winTz \<in> set (refPieces icsText) \<longrightarrow> winTz \<in> set (vtzScan icsText)"
  then have "map (\<lambda>p. case p of
                          Inl c \<Rightarrow> [c]
                        | Inr winTz \<Rightarrow>
                            if winTz \<in> set (vtzScan icsText) then ''TZID='' @ winTz
                            else replaceTz {} findIana (''TZID='' @ winTz) winTz)
                 (refPieces icsText) = map pieceText (refPieces icsText)"
    by (intro map_cong refl) (auto simp: pieceText_def split: sum.splits)
  with pos have "normalizeIcsTimezones findIana icsText = concat (map pieceText (refPieces icsText))"
    by simp
  then show "normalizeIcsTimezones findIana icsText = icsText"
    by (simp add: pieces_text)
qed

lemma refs_sd:
  "Inr winTz \<in> set (refPieces selfDescribing) \<longleftrightarrow> winTz = ''FLE Standard Time''"
  by (auto simp: selfDescribing_def crlf_def refMatch_def isRefChar_def)

text \<open>
  The table maps \<open>FLE Standard Time\<close>; the reference is kept in the text that carries the
  VTIMEZONE block of that name, and rewritten in the text that does not.
\<close>

theorem declared_zone_references_kept_witness:
  "vtzScan selfDescribing = [''FLE Standard Time'']
   \<and> winToIana ''FLE Standard Time'' = [''Europe/Kiev'', ''Europe/Helsinki'']
   \<and> normalizeIcsTimezones winToIana selfDescribing = selfDescribing
   \<and> normalizeIcsTimezones winToIana bareReference
       = ''DTSTART;TZID=Europe/Nicosia:20260209T101500'' @ crlf"
proof -
  have v: "vtzScan selfDescribing = [''FLE Standard Time'']"
    by (simp add: selfDescribing_def crlf_def captureAt_def isLineChar_def)
  have "\<forall>winTz. Inr winTz \<in> set (refPieces selfDescribing) \<longrightarrow> winTz \<in> set (vtzScan selfDescribing)"
    by (simp add: refs_sd v)
  with declared_zone_references_kept [of selfDescribing winToIana]
  have kept: "normalizeIcsTimezones winToIana selfDescribing = selfDescribing"
    by blast
  have bare: "normalizeIcsTimezones winToIana bareReference
       = ''DTSTART;TZID=Europe/Nicosia:20260209T101500'' @ crlf"
    by (simp add: normalizeIcsTimezones_def bareReference_def crlf_def refMatch_def isRefChar_def
        replaceTz_def winToIana_def)
  from v kept bare show ?thesis
    by (simp add: winToIana_def)
qed

lemma vtzScan_pacificCalendar: "vtzScan pacificCalendar = [''4'']"
  by (simp add: pacificCalendar_def pacificBlock_def crlf_def captureAt_def isLineChar_def)

lemma replaceAllRefs_pacificCalendar:
  "replaceAllRefs (replaceTz {''4''} winToIana) pacificCalendar = pacificCalendarRewritten"
  by (simp add: pacificCalendar_def pacificCalendarRewritten_def pacificBlock_def crlf_def
      refMatch_def isRefChar_def replaceTz_def winToIana_def)

text \<open>
  Claim C8. A reference \<open>TZID=name\<close> whose name a VTIMEZONE block of the text declares is
  left as it is. \<open>normalizeIcsTimezones\<close> of \<open>src/unnamed/part_000\<close> collects the declared
  names with an expression that takes the first \<open>TZID:\<close> behind \<open>BEGIN:VTIMEZONE\<close>,
  wherever on its line it stands. In a block whose \<open>X-ENTOURAGE-TZID\<close> property comes
  before the TZID property, the name collected is \<open>4\<close> and not \<open>Pacific Standard Time\<close>,
  and the reference of the event to the zone that the block declares is rewritten to
  \<open>America/Los_Angeles\<close>. \<open>normalizeIcsTimezones\<close> of the revision in \<open>src/local-run.mjs\<close>
  does not look for blocks: it rewrites the reference of the text that declares
  \<open>FLE Standard Time\<close>.
\<close>

theorem declared_reference_rewritten:
  "vtzScan pacificCalendar = [''4'']
   \<and> normalizeIcsTimezones winToIana pacificCalendar = pacificCalendarRewritten
   \<and> pacificCalendarRewritten \<noteq> pacificCalendar
   \<and> normalizeIcsTimezones_localRun winToIana selfDescribing =
       ''BEGIN:VTIMEZONE'' @ crlf @ ''TZID:FLE Standard Time'' @ crlf @
       ''END:VTIMEZONE'' @ crlf @ ''DTSTART;TZID=Europe/Nicosia:20260209T101500'' @ crlf"
proof -
  have "normalizeIcsTimezones winToIana pacificCalendar
      = replaceAllRefs (replaceTz {''4''} winToIana) pacificCalendar"
    by (simp add: normalizeIcsTimezones_def vtzScan_pacificCalendar)
  then have n: "normalizeIcsTimezones winToIana pacificCalendar = pacificCalendarRewritten"
    by (simp only: replaceAllRefs_pacificCalendar)
  have d: "pacificCalendarRewritten \<noteq> pacificCalendar"
    by (simp add: pacificCalendar_def pacificCalendarRewritten_def pacificBlock_def crlf_def)
  have l: "normalizeIcsTimezones_localRun winToIana selfDescribing =
       ''BEGIN:VTIMEZONE'' @ crlf @ ''TZID:FLE Standard Time'' @ crlf @
       ''END:VTIMEZONE'' @ crlf @ ''DTSTART;TZID=Europe/Nicosia:20260209T101500'' @ crlf"
    by (simp add: normalizeIcsTimezones_localRun_def selfDescribing_def crlf_def refMatch_def
        isRefChar_def replaceTz_localRun_def winToIana_def)
  from vtzScan_pacificCalendar n d l show ?thesis
    by (simp only: simp_thms)
qed

end
